theory Spec2Isabelle
  imports Complex_Main
begin

section \<open>PyTeCK \<open>simulation.py\<close>: ignition-delay simulations\<close>

text \<open>
  The module drives a reactor integrator to a target end time, stores the trajectory
  and extracts ignition delays from it. Exceptions are values of the type \<open>error\<close>; a
  function that can raise returns \<open>error + 'a\<close> with \<open>Inl\<close> for the exception.

  A Python float is the \<^typ>\<open>real\<close> number it stands for. The arithmetic of
  \<open>numpy.gradient\<close>, of \<open>numpy.arange\<close> and of the volume histories is rounded to binary64 after
  every operation, as numpy does; comparisons, interpolation and the subtraction of the
  compression time are taken in real arithmetic, and infinities and NaN operands are outside
  the model. The one NaN the module writes itself (the missing first-stage delay) is the
  value \<open>None\<close> of an option.
\<close>

datatype error = ValueError | IndexError | UnboundLocalError

subsection \<open>Rounding to binary64\<close>

text \<open>
  A binary64 number has a significand of 53 bits. For \<open>x \<noteq> 0\<close> the power of two \<open>w\<close> with
  \<open>w \<le> |x| < 2 * w\<close> is found by doubling or halving from 1; the bounds on the number of steps
  are the exponent range of binary64, so that below \<open>2^-1022\<close> the spacing stays that of the
  subnormal numbers (overflow is not modelled). \<open>ulp x\<close> is \<open>w / 2^52\<close>
  (\<open>2^52 = 4503599627370496\<close>), the spacing of the
  binary64 numbers around \<open>x\<close>, and \<open>float64 x\<close> is the multiple of \<open>ulp x\<close> nearest to \<open>x\<close>, the
  even one of two nearest: the IEEE rounding of every numpy operation on \<open>float64\<close> arrays.
\<close>

definition nearest_even :: "int \<Rightarrow> real \<Rightarrow> int" where
  "nearest_even f d =
     (if d < 1 / 2 then f else if 1 / 2 < d then f + 1 else if even f then f else f + 1)"

definition frac_above :: "int \<Rightarrow> real \<Rightarrow> int" where
  "frac_above f x = nearest_even f (x - of_int f)"

definition round_half_even :: "real \<Rightarrow> int" where
  "round_half_even x = frac_above \<lfloor>x\<rfloor> x"

fun pow2_up :: "nat \<Rightarrow> real \<Rightarrow> real \<Rightarrow> real" where
  "pow2_up 0 a w = w"
| "pow2_up (Suc n) a w = (if 2 * w \<le> a then pow2_up n a (2 * w) else w)"

fun pow2_down :: "nat \<Rightarrow> real \<Rightarrow> real \<Rightarrow> real" where
  "pow2_down 0 a w = w"
| "pow2_down (Suc n) a w = (if a < w then pow2_down n a (w / 2) else w)"

definition pow2_below :: "real \<Rightarrow> real" where
  "pow2_below a = (if 1 \<le> a then pow2_up 1023 a 1 else pow2_down 1022 a 1)"

definition ulp :: "real \<Rightarrow> real" where
  "ulp x = pow2_below \<bar>x\<bar> / 4503599627370496"

definition round_to :: "real \<Rightarrow> real \<Rightarrow> real" where
  "round_to u x = real_of_int (round_half_even (x / u)) * u"

definition float64 :: "real \<Rightarrow> real" where
  "float64 x = (if x = 0 then 0 else round_to (ulp x) x)"

subsection \<open>The numpy operations the module calls\<close>

text \<open>
  The operations that compute with floats take the rounding \<open>rnd\<close> applied after every
  arithmetic operation as a parameter: the code is the instance \<open>float64\<close>, and the identity
  gives the same formulas in exact real arithmetic.

  \<open>numpy.diff\<close>: the differences of neighbouring elements.
\<close>

fun numpy_diff :: "(real \<Rightarrow> real) \<Rightarrow> real list \<Rightarrow> real list" where
  "numpy_diff rnd (a # b # xs) = rnd (b - a) # numpy_diff rnd (b # xs)"
| "numpy_diff rnd xs = []"

text \<open>
  \<open>numpy.gradient(f, x, edge_order=2)\<close> for one-dimensional arrays. The coordinate array
  must be as long as \<open>f\<close>; the test for constant spacing reads \<open>diffx[0]\<close>, which fails on
  fewer than two samples; at least three samples are needed for the second-order edges.
  With constant spacing \<open>h\<close> the uniform formulas are used, otherwise the formulas
  weighted by the two neighbouring step sizes; every sum is taken from left to right. A
  repeated coordinate gives a step of zero and non-finite floats in numpy; the properties of
  derivative values below are stated for strictly increasing coordinates.
\<close>

definition weighted_sum ::
  "(real \<Rightarrow> real) \<Rightarrow> real \<Rightarrow> real \<Rightarrow> real \<Rightarrow> real \<Rightarrow> real \<Rightarrow> real \<Rightarrow> real" where
  "weighted_sum rnd a f0 b f1 c f2 = rnd (rnd (rnd (a * f0) + rnd (b * f1)) + rnd (c * f2))"

definition gradient_first :: "(real \<Rightarrow> real) \<Rightarrow> bool \<Rightarrow> real list \<Rightarrow> real list \<Rightarrow> real" where
  "gradient_first rnd uniform f dx =
     (if uniform then
        (let h = dx ! 0;
             a = rnd (- 1.5 / h);
             b = rnd (2 / h);
             c = rnd (- 0.5 / h)
         in weighted_sum rnd a (f ! 0) b (f ! 1) c (f ! 2))
      else
        (let dx1 = dx ! 0; dx2 = dx ! 1;
             a = rnd (- rnd (rnd (2 * dx1) + dx2) / rnd (dx1 * rnd (dx1 + dx2)));
             b = rnd (rnd (dx1 + dx2) / rnd (dx1 * dx2));
             c = rnd (- dx1 / rnd (dx2 * rnd (dx1 + dx2)))
         in weighted_sum rnd a (f ! 0) b (f ! 1) c (f ! 2)))"

definition gradient_interior ::
  "(real \<Rightarrow> real) \<Rightarrow> bool \<Rightarrow> real list \<Rightarrow> real list \<Rightarrow> nat \<Rightarrow> real" where
  "gradient_interior rnd uniform f dx i =
     (if uniform then
        (let h = dx ! 0 in rnd (rnd (f ! (i + 1) - f ! (i - 1)) / rnd (2 * h)))
      else
        (let dx1 = dx ! (i - 1); dx2 = dx ! i;
             a = rnd (- dx2 / rnd (dx1 * rnd (dx1 + dx2)));
             b = rnd (rnd (dx2 - dx1) / rnd (dx1 * dx2));
             c = rnd (dx1 / rnd (dx2 * rnd (dx1 + dx2)))
         in weighted_sum rnd a (f ! (i - 1)) b (f ! i) c (f ! (i + 1))))"

definition gradient_last :: "(real \<Rightarrow> real) \<Rightarrow> bool \<Rightarrow> real list \<Rightarrow> real list \<Rightarrow> real" where
  "gradient_last rnd uniform f dx =
     (let n = length f in
      if uniform then
        (let h = dx ! 0;
             a = rnd (0.5 / h);
             b = rnd (- 2 / h);
             c = rnd (1.5 / h)
         in weighted_sum rnd a (f ! (n - 3)) b (f ! (n - 2)) c (f ! (n - 1)))
      else
        (let dx1 = dx ! (n - 3); dx2 = dx ! (n - 2);
             a = rnd (dx2 / rnd (dx1 * rnd (dx1 + dx2)));
             b = rnd (- rnd (dx2 + dx1) / rnd (dx1 * dx2));
             c = rnd (rnd (rnd (2 * dx2) + dx1) / rnd (dx2 * rnd (dx1 + dx2)))
         in weighted_sum rnd a (f ! (n - 3)) b (f ! (n - 2)) c (f ! (n - 1))))"

definition numpy_gradient_with ::
  "(real \<Rightarrow> real) \<Rightarrow> real list \<Rightarrow> real list \<Rightarrow> error + real list" where
  "numpy_gradient_with rnd f x =
     (let n = length f in
      if length x \<noteq> n then Inl ValueError
      else if n < 2 then Inl IndexError
      else if n < 3 then Inl ValueError
      else
        (let dx = numpy_diff rnd x;
             uniform = list_all (\<lambda>d. d = dx ! 0) dx
         in Inr (gradient_first rnd uniform f dx
                 # map (gradient_interior rnd uniform f dx) [1..<n - 1]
                 @ [gradient_last rnd uniform f dx])))"

definition numpy_gradient :: "real list \<Rightarrow> real list \<Rightarrow> error + real list" where
  "numpy_gradient f x = numpy_gradient_with float64 f x"

text \<open>
  \<open>numpy.interp(x, xp, fp, left, right)\<close> for a scalar \<open>x\<close>: \<open>right\<close> after the last sample
  point, \<open>left\<close> before the first one, the stored value at a sample point, and otherwise the
  value on the straight line through the two neighbouring samples. numpy finds the segment
  by binary search and documents the result only for increasing \<open>xp\<close>; the scan below
  takes the first segment whose right end lies beyond \<open>x\<close>, which is the same segment
  whenever \<open>xp\<close> is increasing. Arrays of different lengths and an empty array of sample
  points are rejected.
\<close>

fun interp_scan :: "real \<Rightarrow> real list \<Rightarrow> real list \<Rightarrow> real" where
  "interp_scan x (x0 # x1 # xs) (y0 # y1 # ys) =
     (if x < x1 then
        (if x = x0 then y0 else (y1 - y0) / (x1 - x0) * (x - x0) + y0)
      else interp_scan x (x1 # xs) (y1 # ys))"
| "interp_scan x xs (y0 # ys) = y0"
| "interp_scan x xs [] = 0"

definition numpy_interp :: "real \<Rightarrow> real list \<Rightarrow> real list \<Rightarrow> real \<Rightarrow> real \<Rightarrow> error + real" where
  "numpy_interp x xp fp left right =
     (if length fp \<noteq> length xp then Inl ValueError
      else if xp = [] then Inl ValueError
      else if last xp < x then Inr right
      else if x < xp ! 0 then Inr left
      else Inr (interp_scan x xp fp))"

text \<open>
  \<open>numpy.arange(start, stop, step)\<close> on floats with a positive step: the length is the
  ceiling of the rounded quotient \<open>(stop - start) / step\<close>; the first two elements are
  \<open>start\<close> and \<open>start + step\<close>, and the element of index \<open>i\<close> is \<open>start + i * delta\<close> with
  \<open>delta\<close> the difference of the first two.
\<close>

definition numpy_arange :: "real \<Rightarrow> real \<Rightarrow> real \<Rightarrow> real list" where
  "numpy_arange start stop step =
     (let next = float64 (start + step);
          delta = float64 (next - start)
      in map (\<lambda>i. if i = 0 then start else if i = 1 then next
                    else float64 (start + float64 (real i * delta)))
           [0..<nat \<lceil>float64 (float64 (stop - start) / step)\<rceil>])"

text \<open>
  \<open>numpy.argmax\<close>, \<open>numpy.argmin\<close> and \<open>numpy.max\<close> of a one-dimensional array: the position
  of the first occurrence of the extreme value; an empty array raises \<open>ValueError\<close>.
\<close>

fun argmax_scan :: "real list \<Rightarrow> nat \<Rightarrow> nat \<Rightarrow> real \<Rightarrow> nat" where
  "argmax_scan [] i best v = best"
| "argmax_scan (x # xs) i best v =
     (if v < x then argmax_scan xs (Suc i) i x else argmax_scan xs (Suc i) best v)"

definition numpy_argmax :: "real list \<Rightarrow> error + nat" where
  "numpy_argmax xs = (case xs of [] \<Rightarrow> Inl ValueError | x # rest \<Rightarrow> Inr (argmax_scan rest 1 0 x))"

fun argmin_scan :: "real list \<Rightarrow> nat \<Rightarrow> nat \<Rightarrow> real \<Rightarrow> nat" where
  "argmin_scan [] i best v = best"
| "argmin_scan (x # xs) i best v =
     (if x < v then argmin_scan xs (Suc i) i x else argmin_scan xs (Suc i) best v)"

definition numpy_argmin :: "real list \<Rightarrow> error + nat" where
  "numpy_argmin xs = (case xs of [] \<Rightarrow> Inl ValueError | x # rest \<Rightarrow> Inr (argmin_scan rest 1 0 x))"

definition numpy_max :: "real list \<Rightarrow> error + real" where
  "numpy_max xs = (case xs of [] \<Rightarrow> Inl ValueError | x # rest \<Rightarrow> Inr (fold max rest x))"

text \<open>
  Indexing an array with an array of indices, \<open>xs[is]\<close>: the selected elements in the order
  of \<open>is\<close>; an index beyond the end raises \<open>IndexError\<close>.
\<close>

definition take_indices :: "'a list \<Rightarrow> nat list \<Rightarrow> error + 'a list" where
  "take_indices xs is =
     (if list_all (\<lambda>i. i < length xs) is then Inr (map (\<lambda>i. xs ! i) is) else Inl IndexError)"

text \<open>Sequencing of computations that can raise: the first exception is the result.\<close>

definition bind_error :: "error + 'a \<Rightarrow> ('a \<Rightarrow> error + 'b) \<Rightarrow> error + 'b" where
  "bind_error m f = (case m of Inl e \<Rightarrow> Inl e | Inr v \<Rightarrow> f v)"

subsection \<open>\<open>first_derivative\<close> (lines 33-46)\<close>

text \<open>
  The derivative of \<open>y\<close> with respect to \<open>x\<close> by second-order finite differences:
  \<open>numpy.gradient(y, x, edge_order=2)\<close>.
\<close>

definition first_derivative :: "real list \<Rightarrow> real list \<Rightarrow> error + real list" where
  "first_derivative x y = numpy_gradient y x"

text \<open>The same difference formulas evaluated in exact real arithmetic, without rounding.\<close>

definition first_derivative_exact :: "real list \<Rightarrow> real list \<Rightarrow> error + real list" where
  "first_derivative_exact x y = numpy_gradient_with (\<lambda>v. v) y x"

subsection \<open>\<open>sample_rising_pressure\<close> and \<open>create_volume_history\<close> (lines 49-91)\<close>

definition sample_rising_pressure :: "real \<Rightarrow> real \<Rightarrow> real \<Rightarrow> real \<Rightarrow> real list \<times> real list" where
  "sample_rising_pressure time_end init_pres freq pressure_rise_rate =
     (let times = numpy_arange 0 (float64 (time_end + float64 (1 / freq))) (float64 (1 / freq));
          pressures =
            map (\<lambda>t. float64 (init_pres * float64 (float64 (pressure_rise_rate * t) + 1))) times
      in (times, pressures))"

text \<open>
  The thermodynamic state belongs to Cantera. \<open>density_SP p\<close> stands for \<open>gas.density\<close>
  after \<open>gas.SP = initial_entropy, p\<close>, and \<open>initial_density\<close> for the density of the
  initial state.
\<close>

definition create_volume_history ::
  "(real \<Rightarrow> real) \<Rightarrow> real \<Rightarrow> real \<Rightarrow> real \<Rightarrow> real \<Rightarrow> real list \<times> real list" where
  "create_volume_history density_SP initial_density pres pres_rise time_end =
     (let freq = 20000;
          (times, pressures) = sample_rising_pressure time_end pres freq pres_rise;
          volumes = map (\<lambda>p. float64 (initial_density / density_SP p)) pressures
      in (times, volumes))"

subsection \<open>\<open>VolumeProfile\<close> and \<open>PressureRiseProfile\<close> (lines 94-186)\<close>

text \<open>
  A profile object holds \<open>self.times\<close> and \<open>self.velocity\<close>. A volume history is the pair of
  its time and volume arrays. The normalisation divides by the first volume; a first volume
  of zero gives non-finite floats in numpy, which the model does not represent.
\<close>

record VolumeProfile =
  times :: "real list"
  velocity :: "real list"

definition VolumeProfile_init :: "real list \<times> real list \<Rightarrow> error + VolumeProfile" where
  "VolumeProfile_init volume_history =
     (case volume_history of (vh_time, vh_volume) \<Rightarrow>
        if vh_volume = [] then Inl IndexError
        else
          (let volumes = map (\<lambda>v. float64 (v / vh_volume ! 0)) vh_volume
           in bind_error (first_derivative vh_time volumes)
                (\<lambda>vel. Inr \<lparr>times = vh_time, velocity = vel\<rparr>)))"

definition PressureRiseProfile_init ::
  "(real \<Rightarrow> real) \<Rightarrow> real \<Rightarrow> real \<Rightarrow> real \<Rightarrow> real \<Rightarrow> error + VolumeProfile" where
  "PressureRiseProfile_init density_SP initial_density initial_pres pressure_rise time_end =
     (case create_volume_history density_SP initial_density initial_pres pressure_rise time_end of
        (ts, volumes) \<Rightarrow>
          bind_error (first_derivative ts volumes)
            (\<lambda>vel. Inr \<lparr>times = ts, velocity = vel\<rparr>))"

definition VolumeProfile_call :: "VolumeProfile \<Rightarrow> real \<Rightarrow> error + real" where
  "VolumeProfile_call self t = numpy_interp t (times self) (velocity self) 0 0"

subsection \<open>\<open>Simulation.setup_case\<close>: the ignition target (lines 309-340)\<close>

text \<open>
  The last part of \<open>setup_case\<close> resolves the ignition target. The target is the string
  \<open>pressure\<close> or \<open>temperature\<close>, or the index of a species. \<open>species_index\<close> stands for
  \<open>self.gas.species_index\<close> of Cantera: \<open>None\<close> is its \<open>ValueError\<close> for an unknown name.
  \<open>printed\<close> collects what the method prints. \<open>lower\<close> is \<open>str.lower\<close> on ASCII names.
\<close>

datatype ignition_target = Pressure | Temperature | Species nat

record ignition =
  ignition_target :: ignition_target
  ignition_type :: string
  printed :: "string list"

definition lower_char :: "char \<Rightarrow> char" where
  "lower_char c =
     (if 65 \<le> (of_char c :: nat) \<and> (of_char c :: nat) \<le> 90
      then char_of ((of_char c :: nat) + 32) else c)"

definition lower :: "string \<Rightarrow> string" where
  "lower s = map lower_char s"

text \<open>The candidate names, in the order they are tried; \<open>spec[-1]\<close> fails on an empty name.\<close>

definition try_list :: "string \<Rightarrow> error + string list" where
  "try_list spec =
     (if spec = [] then Inl IndexError
      else if last spec = CHR ''*''
        then Inr ([spec, lower spec] @ [butlast spec, lower (butlast spec)])
      else Inr [spec, lower spec])"

text \<open>The \<open>for\<close> loop with \<open>try\<close>/\<open>except ValueError\<close>: the index of the first name found.\<close>

fun try_species :: "(string \<Rightarrow> nat option) \<Rightarrow> string list \<Rightarrow> nat option" where
  "try_species species_index [] = None"
| "try_species species_index (sp # rest) =
     (case species_index sp of
        Some i \<Rightarrow> Some i
      | None \<Rightarrow> try_species species_index rest)"

text \<open>
  \<open>target\<close> and \<open>type\<close> are the two entries of the dictionary \<open>ignition_type\<close> of the case.
  The test \<open>if ind:\<close> is a truth test: it fails for \<open>None\<close> and for the index \<open>0\<close>.
\<close>

definition setup_case_ignition ::
  "(string \<Rightarrow> nat option) \<Rightarrow> string \<Rightarrow> string \<Rightarrow> error + ignition" where
  "setup_case_ignition species_index target type =
     (if target \<noteq> ''pressure'' \<and> target \<noteq> ''temperature'' then
        bind_error (try_list target) (\<lambda>names.
          (let ind = try_species species_index names
           in if ind \<noteq> None \<and> ind \<noteq> Some 0 then
                Inr \<lparr>ignition_target = Species (the ind), ignition_type = type, printed = []\<rparr>
              else
                Inr \<lparr>ignition_target = Pressure, ignition_type = ''d/dt max'',
                     printed = [''Warning: '' @ target @ '' not found in model; ''
                                  @ ''falling back on pressure.'']\<rparr>))
      else
        Inr \<lparr>ignition_target = (if target = ''pressure'' then Pressure else Temperature),
             ignition_type = type, printed = []\<rparr>)"

text \<open>A mechanism given by the list of its species names, for concrete cases.\<close>

fun species_index_of :: "string list \<Rightarrow> string \<Rightarrow> nat option" where
  "species_index_of [] sp = None"
| "species_index_of (name # names) sp =
     (if name = sp then Some 0 else map_option Suc (species_index_of names sp))"

subsection \<open>\<open>Simulation.run_case\<close> (lines 346-437)\<close>

text \<open>
  A row of the table \<open>simulation\<close>. The reactor network belongs to Cantera: it is a state
  of some type \<open>'s\<close> with the operation \<open>step\<close> (\<open>self.reac_net.step()\<close>) and the reading
  \<open>obs\<close> of the time, temperature, pressure, volume and mass fractions of the current
  state. The variables \<open>prev_time\<close>, \<open>prev_temp\<close>, ... are assigned at the end of the loop
  body only; \<open>None\<close> stands for their being unbound on the first pass.
\<close>

record timestep =
  time :: real
  temperature :: real
  pressure :: real
  volume :: real
  mass_fractions :: "real list"

definition interp_end :: "real \<Rightarrow> real \<Rightarrow> real \<Rightarrow> real \<Rightarrow> real \<Rightarrow> error + real" where
  "interp_end time_end prev_time new_time prev_val new_val =
     numpy_interp time_end [prev_time, new_time] [prev_val, new_val] prev_val new_val"

fun interp_mass_fracs ::
  "real \<Rightarrow> real \<Rightarrow> real \<Rightarrow> real list \<Rightarrow> real list \<Rightarrow> nat list \<Rightarrow> error + real list" where
  "interp_mass_fracs time_end prev_time new_time prev_mass_frac Y [] = Inr []"
| "interp_mass_fracs time_end prev_time new_time prev_mass_frac Y (i # rest) =
     (if i < length prev_mass_frac then
        bind_error (interp_end time_end prev_time new_time (prev_mass_frac ! i) (Y ! i)) (\<lambda>v.
        bind_error (interp_mass_fracs time_end prev_time new_time prev_mass_frac Y rest) (\<lambda>vs.
        Inr (v # vs)))
      else Inl IndexError)"

definition interp_timestep :: "real \<Rightarrow> timestep \<Rightarrow> timestep \<Rightarrow> error + timestep" where
  "interp_timestep time_end prev new =
     bind_error (interp_end time_end (time prev) (time new) (temperature prev) (temperature new))
       (\<lambda>T.
     bind_error (interp_end time_end (time prev) (time new) (pressure prev) (pressure new))
       (\<lambda>P.
     bind_error (interp_end time_end (time prev) (time new) (volume prev) (volume new))
       (\<lambda>V.
     bind_error (interp_mass_fracs time_end (time prev) (time new)
                   (mass_fractions prev) (mass_fractions new)
                   [0..<length (mass_fractions new)])
       (\<lambda>Y.
     Inr \<lparr>time = time_end, temperature = T, pressure = P, volume = V,
          mass_fractions = Y\<rparr>))))"

text \<open>
  The main time integration loop. The loop has no other exit than its condition, so it is
  a partial function: the value \<open>None\<close> means that the loop does not return.
\<close>

partial_function (option) integration_loop ::
  "('s \<Rightarrow> 's) \<Rightarrow> ('s \<Rightarrow> timestep) \<Rightarrow> real \<Rightarrow> 's \<Rightarrow> timestep option \<Rightarrow> timestep list
     \<Rightarrow> (error + timestep list) option" where
  "integration_loop step obs time_end s prev table =
     (if time (obs s) < time_end then
        (if time_end < time (obs (step s)) then
           (case prev of
              None \<Rightarrow> Some (Inl UnboundLocalError)
            | Some p \<Rightarrow>
                (case interp_timestep time_end p (obs (step s)) of
                   Inl e \<Rightarrow> Some (Inl e)
                 | Inr row \<Rightarrow>
                     integration_loop step obs time_end (step s) (Some (obs (step s)))
                       (table @ [row])))
         else
           integration_loop step obs time_end (step s) (Some (obs (step s)))
             (table @ [obs (step s)]))
      else Some (Inr table))"

text \<open>
  \<open>run_case\<close>: with \<open>restart\<close> and an existing results file the case is skipped (the result
  \<open>None\<close> inside); otherwise the table starts with the initial conditions and the loop runs.
\<close>

definition run_case ::
  "('s \<Rightarrow> 's) \<Rightarrow> ('s \<Rightarrow> timestep) \<Rightarrow> real \<Rightarrow> 's \<Rightarrow> bool \<Rightarrow> bool
     \<Rightarrow> (error + timestep list option) option" where
  "run_case step obs time_end s restart isfile =
     (if restart \<and> isfile then Some (Inr None)
      else map_option (map_sum id Some) (integration_loop step obs time_end s None [obs s]))"

subsection \<open>\<open>Simulation.process_results\<close> (lines 439-508)\<close>

text \<open>
  The peak detector \<open>detect_peaks\<close> lives in a module of its own and is a parameter here: a
  function from a signal to the list of the indices of its peaks. The compression time is
  optional (\<open>None\<close> in Python). The two results are the entries
  \<open>simulated-ignition-delay\<close> and \<open>simulated-first-stage-delay\<close> of \<open>self.meta\<close>; the
  not-a-number of the second is \<open>None\<close>.
\<close>

record delays =
  simulated_ignition_delay :: real
  simulated_first_stage_delay :: "real option"

text \<open>The column of the table that the target selects.\<close>

definition target_col :: "ignition_target \<Rightarrow> timestep list \<Rightarrow> error + real list" where
  "target_col tgt table =
     (case tgt of
        Pressure \<Rightarrow> Inr (map pressure table)
      | Temperature \<Rightarrow> Inr (map temperature table)
      | Species k \<Rightarrow>
          (if list_all (\<lambda>row. k < length (mass_fractions row)) table
           then Inr (map (\<lambda>row. mass_fractions row ! k) table)
           else Inl IndexError))"

text \<open>
  The signal searched for peaks and the peaks found in it: the derivative for \<open>d/dt max\<close>,
  and for \<open>max\<close> the derivative as a second try when the target itself has no peak.
\<close>

definition find_peaks ::
  "(real list \<Rightarrow> nat list) \<Rightarrow> string \<Rightarrow> real list \<Rightarrow> real list
     \<Rightarrow> error + (real list \<times> nat list)" where
  "find_peaks detect_peaks type ts target =
     bind_error (if type = ''d/dt max'' then first_derivative ts target else Inr target)
       (\<lambda>target1.
          (let ind = detect_peaks target1
           in if length ind = 0 \<and> type = ''max'' then
                bind_error (first_derivative ts target1)
                  (\<lambda>target2. Inr (target2, detect_peaks target2))
              else Inr (target1, ind)))"

text \<open>\<open>max_ind = ind[numpy.argmax(target[ind])]\<close>\<close>

definition largest_peak :: "real list \<Rightarrow> nat list \<Rightarrow> error + nat" where
  "largest_peak target ind =
     bind_error (take_indices target ind) (\<lambda>peaks.
     bind_error (numpy_argmax peaks) (\<lambda>k. Inr (ind ! k)))"

text \<open>
  The delays of the \<open>max\<close> criteria:
  \<open>time[ind[numpy.where((time[ind[ind <= max_ind]] - time_comp) > 0)]] - time_comp\<close>.
  The mask selects the peaks up to the largest one; \<open>numpy.where\<close> gives the positions,
  within that selection, of the times beyond the compression time; these positions then
  index the whole array \<open>ind\<close>.
\<close>

definition ign_delays_max :: "real list \<Rightarrow> nat list \<Rightarrow> nat \<Rightarrow> real \<Rightarrow> error + real list" where
  "ign_delays_max ts ind max_ind time_comp =
     bind_error (take_indices ts (filter (\<lambda>i. i \<le> max_ind) ind)) (\<lambda>sel_times.
       (let pos = filter (\<lambda>j. 0 < sel_times ! j - time_comp) [0..<length sel_times]
        in bind_error (take_indices ind pos) (\<lambda>sel_ind.
           bind_error (take_indices ts sel_ind) (\<lambda>peak_times.
           Inr (map (\<lambda>t. t - time_comp) peak_times)))))"

text \<open>The delay of the \<open>1/2 max\<close> criterion.\<close>

definition ign_delays_half :: "(real list \<Rightarrow> nat list) \<Rightarrow> real list \<Rightarrow> real list \<Rightarrow> error + real list" where
  "ign_delays_half detect_peaks ts target =
     bind_error (numpy_max target) (\<lambda>max_val.
     bind_error (largest_peak target (detect_peaks target)) (\<lambda>max_ind.
     bind_error (numpy_argmin (map (\<lambda>v. \<bar>v - 0.5 * max_val\<bar>) (take max_ind target)))
       (\<lambda>half_idx.
     if half_idx < length ts then Inr [ts ! half_idx] else Inl IndexError)))"

text \<open>The compression time to subtract: zero unless the case gives one.\<close>

definition time_comp_of :: "real option \<Rightarrow> real" where
  "time_comp_of compression_time = (case compression_time of None \<Rightarrow> 0 | Some tc \<Rightarrow> tc)"

text \<open>The last part: the overall delay and the first-stage delay from the list of delays.\<close>

definition report_delays :: "real list \<Rightarrow> delays" where
  "report_delays ign_delays =
     \<lparr>simulated_ignition_delay = (if length ign_delays > 0 then last ign_delays else 0),
      simulated_first_stage_delay = (if length ign_delays > 1 then Some (ign_delays ! 0) else None)\<rparr>"

text \<open>
  With a type other than the three known ones no branch assigns \<open>ign_delays\<close>, and reading
  it fails.
\<close>

definition process_results ::
  "(real list \<Rightarrow> nat list) \<Rightarrow> ignition_target \<Rightarrow> string \<Rightarrow> real option \<Rightarrow> timestep list
     \<Rightarrow> error + delays" where
  "process_results detect_peaks tgt type compression_time table =
     bind_error (target_col tgt table) (\<lambda>target0.
       (let ts = map time table
        in if type = ''max'' \<or> type = ''d/dt max'' then
             bind_error (find_peaks detect_peaks type ts target0) (\<lambda>(target, ind).
             bind_error (largest_peak target ind) (\<lambda>max_ind.
               (let time_comp = time_comp_of compression_time
                in bind_error (ign_delays_max ts ind max_ind time_comp) (\<lambda>ign_delays.
                   Inr (report_delays ign_delays)))))
           else if type = ''1/2 max'' then
             bind_error (ign_delays_half detect_peaks ts target0) (\<lambda>ign_delays.
             Inr (report_delays ign_delays))
           else Inl UnboundLocalError))"

subsection \<open>Concrete cases\<close>

text \<open>
  The data below serve the concrete cases at which the theorems are instantiated. A
  polynomial of degree at most two:
\<close>

definition quadratic :: "real \<Rightarrow> real \<Rightarrow> real \<Rightarrow> real \<Rightarrow> real" where
  "quadratic a b c t = a * t\<^sup>2 + b * t + c"

text \<open>
  Modelled from the spec: the module \<open>detect_peaks\<close> is not among the sources. The
  specification describes the detector by its contract, the indices of the local maxima of
  a signal, "maxima exceeding their immediate neighbors". \<open>local_maxima\<close> is the plainest
  detector of that kind and stands for \<open>detect_peaks\<close> in concrete cases only; the theorems
  take the detector as a parameter.
\<close>

definition local_maxima :: "real list \<Rightarrow> nat list" where
  "local_maxima x =
     filter (\<lambda>i. x ! (i - 1) < x ! i \<and> x ! (i + 1) < x ! i) [1..<length x - 1]"

text \<open>A table from pairs of time and pressure.\<close>

definition pressure_table :: "(real \<times> real) list \<Rightarrow> timestep list" where
  "pressure_table rows =
     map (\<lambda>(t, p). \<lparr>time = t, temperature = 1000, pressure = p, volume = 1,
                      mass_fractions = [1]\<rparr>) rows"

text \<open>
  A reactor network whose state is the number of steps taken, with \<open>Suc\<close> as the step, and
  which advances by a fixed time \<open>h\<close> per step.
\<close>

definition steady_reactor :: "real \<Rightarrow> nat \<Rightarrow> timestep" where
  "steady_reactor h n =
     \<lparr>time = h * real n, temperature = 1000 + 100 * real n, pressure = 100000, volume = 1,
      mass_fractions = [1 - real n / 10, real n / 10]\<rparr>"

subsection \<open>The qualifying peaks in the words of the specification\<close>

text \<open>
  The detected peaks at or before the largest peak whose time, less the compression time,
  exceeds zero. \<open>ign_delays_max\<close> above is what the code computes; the two are compared
  below.
\<close>

definition qualifying_peaks :: "real list \<Rightarrow> nat list \<Rightarrow> nat \<Rightarrow> real \<Rightarrow> nat list" where
  "qualifying_peaks ts ind max_ind time_comp =
     filter (\<lambda>i. i \<le> max_ind \<and> 0 < ts ! i - time_comp) ind"

subsection \<open>The linear interpolation in the words of the specification\<close>

text \<open>
  The value at \<open>x\<close> of the straight line through \<open>(x0, y0)\<close> and \<open>(x1, y1)\<close>.
\<close>

definition line_at :: "real \<Rightarrow> real \<Rightarrow> real \<Rightarrow> real \<Rightarrow> real \<Rightarrow> real" where
  "line_at x x0 x1 y0 y1 = (y1 - y0) / (x1 - x0) * (x - x0) + y0"

section \<open>Properties\<close>

subsection \<open>Sequencing\<close>

lemma bind_error_Inr [simp]: "bind_error (Inr v) f = f v"
  by (simp add: bind_error_def)

lemma bind_error_Inl [simp]: "bind_error (Inl e) f = Inl e"
  by (simp add: bind_error_def)

lemma bind_error_eq_Inr:
  "bind_error m f = Inr r \<longleftrightarrow> (\<exists>v. m = Inr v \<and> f v = Inr r)"
  by (cases m) simp_all

subsection \<open>The differentiator is exact on quadratics\<close>

lemma quad_first_h:
  fixes a b c x0 h1 h2 :: real
  assumes "0 < h1" "0 < h2"
  shows "(- (2 * h1 + h2) / (h1 * (h1 + h2))) * (a * x0\<^sup>2 + b * x0 + c)
         + ((h1 + h2) / (h1 * h2)) * (a * (x0 + h1)\<^sup>2 + b * (x0 + h1) + c)
         + (- h1 / (h2 * (h1 + h2))) * (a * (x0 + h1 + h2)\<^sup>2 + b * (x0 + h1 + h2) + c)
         = 2 * a * x0 + b"
proof -
  have nz: "h1 \<noteq> 0" "h2 \<noteq> 0" "h1 + h2 \<noteq> 0" using assms by auto
  show ?thesis using nz
    by (simp add: divide_simps) (simp add: power2_eq_square algebra_simps)
qed

lemma quad_interior_h:
  fixes a b c x0 h1 h2 :: real
  assumes "0 < h1" "0 < h2"
  shows "(- h2 / (h1 * (h1 + h2))) * (a * x0\<^sup>2 + b * x0 + c)
         + ((h2 - h1) / (h1 * h2)) * (a * (x0 + h1)\<^sup>2 + b * (x0 + h1) + c)
         + (h1 / (h2 * (h1 + h2))) * (a * (x0 + h1 + h2)\<^sup>2 + b * (x0 + h1 + h2) + c)
         = 2 * a * (x0 + h1) + b"
proof -
  have nz: "h1 \<noteq> 0" "h2 \<noteq> 0" "h1 + h2 \<noteq> 0" using assms by auto
  show ?thesis using nz
    by (simp add: divide_simps) (simp add: power2_eq_square algebra_simps)
qed

lemma quad_last_h:
  fixes a b c x0 h1 h2 :: real
  assumes "0 < h1" "0 < h2"
  shows "(h2 / (h1 * (h1 + h2))) * (a * x0\<^sup>2 + b * x0 + c)
         + (- (h2 + h1) / (h1 * h2)) * (a * (x0 + h1)\<^sup>2 + b * (x0 + h1) + c)
         + ((2 * h2 + h1) / (h2 * (h1 + h2))) * (a * (x0 + h1 + h2)\<^sup>2 + b * (x0 + h1 + h2) + c)
         = 2 * a * (x0 + h1 + h2) + b"
proof -
  have nz: "h1 \<noteq> 0" "h2 \<noteq> 0" "h1 + h2 \<noteq> 0" using assms by auto
  show ?thesis using nz
    by (simp add: divide_simps) (simp add: power2_eq_square algebra_simps)
qed

lemma length_numpy_diff: "length (numpy_diff rnd xs) = length xs - 1"
  by (induction rnd xs rule: numpy_diff.induct) auto

lemma nth_numpy_diff:
  "Suc i < length xs \<Longrightarrow> numpy_diff (\<lambda>v. v) xs ! i = xs ! Suc i - xs ! i"
proof (induction "\<lambda>v::real. v" xs arbitrary: i rule: numpy_diff.induct)
  case (1 a b xs)
  then show ?case by (cases i) auto
qed auto

lemma strict_sorted_step:
  "sorted_wrt (<) (xs :: real list) \<Longrightarrow> Suc i < length xs \<Longrightarrow> xs ! i < xs ! Suc i"
  by (simp add: sorted_wrt_iff_nth_less)

lemma numpy_diff_pos:
  "sorted_wrt (<) xs \<Longrightarrow> Suc i < length xs \<Longrightarrow> 0 < numpy_diff (\<lambda>v. v) xs ! i"
  by (simp add: nth_numpy_diff strict_sorted_step)

lemma uniform_nth:
  "list_all (\<lambda>d. d = dx ! 0) dx \<Longrightarrow> i < length dx \<Longrightarrow> dx ! i = dx ! 0"
  by (simp add: list_all_length)

lemma quad_first_u:
  fixes a b c x0 h :: real
  assumes "0 < h"
  shows "(- 1.5 / h) * (a * x0\<^sup>2 + b * x0 + c)
         + (2 / h) * (a * (x0 + h)\<^sup>2 + b * (x0 + h) + c)
         + (- 0.5 / h) * (a * (x0 + h + h)\<^sup>2 + b * (x0 + h + h) + c)
         = 2 * a * x0 + b"
  using assms by (simp add: divide_simps) (simp add: power2_eq_square algebra_simps)

lemma quad_interior_u:
  fixes a b c x0 h :: real
  assumes "0 < h"
  shows "((a * (x0 + h + h)\<^sup>2 + b * (x0 + h + h) + c) - (a * x0\<^sup>2 + b * x0 + c)) / (2 * h)
         = 2 * a * (x0 + h) + b"
  using assms by (simp add: divide_simps) (simp add: power2_eq_square algebra_simps)

lemma quad_last_u:
  fixes a b c x0 h :: real
  assumes "0 < h"
  shows "(0.5 / h) * (a * x0\<^sup>2 + b * x0 + c)
         + (- 2 / h) * (a * (x0 + h)\<^sup>2 + b * (x0 + h) + c)
         + (1.5 / h) * (a * (x0 + h + h)\<^sup>2 + b * (x0 + h + h) + c)
         = 2 * a * (x0 + h + h) + b"
  using assms by (simp add: divide_simps) (simp add: power2_eq_square algebra_simps)

text \<open>Three neighbouring samples, written with the two step sizes between them.\<close>

lemma three_samples:
  assumes "sorted_wrt (<) x" "Suc (Suc i) < length x"
  shows "0 < numpy_diff (\<lambda>v. v) x ! i" "0 < numpy_diff (\<lambda>v. v) x ! Suc i"
        "x ! Suc i = x ! i + numpy_diff (\<lambda>v. v) x ! i"
        "x ! Suc (Suc i) = x ! i + numpy_diff (\<lambda>v. v) x ! i + numpy_diff (\<lambda>v. v) x ! Suc i"
  using assms by (simp_all add: numpy_diff_pos nth_numpy_diff strict_sorted_step)

lemma gradient_first_quadratic:
  assumes "sorted_wrt (<) x" "3 \<le> length x"
    and u: "u = list_all (\<lambda>d. d = numpy_diff (\<lambda>v. v) x ! 0) (numpy_diff (\<lambda>v. v) x)"
  shows "gradient_first (\<lambda>v. v) u (map (quadratic a b c) x) (numpy_diff (\<lambda>v. v) x) = 2 * a * x ! 0 + b"
proof -
  define h1 where "h1 = numpy_diff (\<lambda>v. v) x ! 0"
  define h2 where "h2 = numpy_diff (\<lambda>v. v) x ! Suc 0"
  have s: "0 < h1" "0 < h2" "x ! 1 = x ! 0 + h1" "x ! 2 = x ! 0 + h1 + h2"
    using three_samples [of x 0] assms by (simp_all add: h1_def h2_def numeral_2_eq_2)
  have ne: "x \<noteq> []" using assms by auto
  show ?thesis
  proof (cases u)
    case True
    then have "h2 = h1"
      using uniform_nth [of "numpy_diff (\<lambda>v. v) x" 1] assms by (simp add: h1_def h2_def length_numpy_diff)
    with True s assms ne have "gradient_first (\<lambda>v. v) u (map (quadratic a b c) x) (numpy_diff (\<lambda>v. v) x) =
        (- 1.5 / h1) * (a * (x ! 0)\<^sup>2 + b * x ! 0 + c)
         + (2 / h1) * (a * (x ! 0 + h1)\<^sup>2 + b * (x ! 0 + h1) + c)
         + (- 0.5 / h1) * (a * (x ! 0 + h1 + h1)\<^sup>2 + b * (x ! 0 + h1 + h1) + c)"
      by (simp add: gradient_first_def weighted_sum_def Let_def quadratic_def flip: h1_def)
    also have "\<dots> = 2 * a * x ! 0 + b" by (rule quad_first_u [OF s(1)])
    finally show ?thesis .
  next
    case False
    with s assms ne have "gradient_first (\<lambda>v. v) u (map (quadratic a b c) x) (numpy_diff (\<lambda>v. v) x) =
        (- (2 * h1 + h2) / (h1 * (h1 + h2))) * (a * (x ! 0)\<^sup>2 + b * x ! 0 + c)
         + ((h1 + h2) / (h1 * h2)) * (a * (x ! 0 + h1)\<^sup>2 + b * (x ! 0 + h1) + c)
         + (- h1 / (h2 * (h1 + h2))) * (a * (x ! 0 + h1 + h2)\<^sup>2 + b * (x ! 0 + h1 + h2) + c)"
      by (simp add: gradient_first_def weighted_sum_def Let_def quadratic_def flip: h1_def h2_def)
    also have "\<dots> = 2 * a * x ! 0 + b" by (rule quad_first_h [OF s(1,2)])
    finally show ?thesis .
  qed
qed

lemma gradient_interior_quadratic:
  assumes "sorted_wrt (<) x" "0 < i" "Suc i < length x"
    and u: "u = list_all (\<lambda>d. d = numpy_diff (\<lambda>v. v) x ! 0) (numpy_diff (\<lambda>v. v) x)"
  shows "gradient_interior (\<lambda>v. v) u (map (quadratic a b c) x) (numpy_diff (\<lambda>v. v) x) i = 2 * a * x ! i + b"
proof -
  obtain j where i: "i = Suc j" using assms by (cases i) auto
  define h1 where "h1 = numpy_diff (\<lambda>v. v) x ! j"
  define h2 where "h2 = numpy_diff (\<lambda>v. v) x ! Suc j"
  have s: "0 < h1" "0 < h2" "x ! Suc j = x ! j + h1" "x ! Suc (Suc j) = x ! j + h1 + h2"
    using three_samples [of x j] assms by (simp_all add: h1_def h2_def i)
  show ?thesis
  proof (cases u)
    case True
    then have "h1 = numpy_diff (\<lambda>v. v) x ! 0" "h2 = numpy_diff (\<lambda>v. v) x ! 0"
      using uniform_nth [of "numpy_diff (\<lambda>v. v) x" j] uniform_nth [of "numpy_diff (\<lambda>v. v) x" "Suc j"] assms
      by (simp_all add: h1_def h2_def length_numpy_diff i)
    with True s assms have "gradient_interior (\<lambda>v. v) u (map (quadratic a b c) x) (numpy_diff (\<lambda>v. v) x) i =
        ((a * (x ! j + h1 + h1)\<^sup>2 + b * (x ! j + h1 + h1) + c) - (a * (x ! j)\<^sup>2 + b * x ! j + c))
          / (2 * h1)"
      by (simp add: gradient_interior_def weighted_sum_def Let_def quadratic_def i)
    also have "\<dots> = 2 * a * (x ! j + h1) + b" by (rule quad_interior_u [OF s(1)])
    finally show ?thesis using s by (simp add: i)
  next
    case False
    with s assms have "gradient_interior (\<lambda>v. v) u (map (quadratic a b c) x) (numpy_diff (\<lambda>v. v) x) i =
        (- h2 / (h1 * (h1 + h2))) * (a * (x ! j)\<^sup>2 + b * x ! j + c)
         + ((h2 - h1) / (h1 * h2)) * (a * (x ! j + h1)\<^sup>2 + b * (x ! j + h1) + c)
         + (h1 / (h2 * (h1 + h2))) * (a * (x ! j + h1 + h2)\<^sup>2 + b * (x ! j + h1 + h2) + c)"
      by (simp add: gradient_interior_def weighted_sum_def Let_def quadratic_def i flip: h1_def h2_def)
    also have "\<dots> = 2 * a * (x ! j + h1) + b" by (rule quad_interior_h [OF s(1,2)])
    finally show ?thesis using s by (simp add: i)
  qed
qed

lemma gradient_last_quadratic:
  assumes "sorted_wrt (<) x" "3 \<le> length x"
    and u: "u = list_all (\<lambda>d. d = numpy_diff (\<lambda>v. v) x ! 0) (numpy_diff (\<lambda>v. v) x)"
  shows "gradient_last (\<lambda>v. v) u (map (quadratic a b c) x) (numpy_diff (\<lambda>v. v) x) = 2 * a * x ! (length x - 1) + b"
proof -
  obtain j where n: "length x = Suc (Suc (Suc j))"
    using assms by (metis Suc_le_D numeral_3_eq_3 Suc_le_mono le0 not0_implies_Suc not_less_eq_eq)
  define h1 where "h1 = numpy_diff (\<lambda>v. v) x ! j"
  define h2 where "h2 = numpy_diff (\<lambda>v. v) x ! Suc j"
  have s: "0 < h1" "0 < h2" "x ! Suc j = x ! j + h1" "x ! Suc (Suc j) = x ! j + h1 + h2"
    using three_samples [of x j] assms by (simp_all add: h1_def h2_def n)
  show ?thesis
  proof (cases u)
    case True
    then have "h1 = numpy_diff (\<lambda>v. v) x ! 0" "h2 = numpy_diff (\<lambda>v. v) x ! 0"
      using uniform_nth [of "numpy_diff (\<lambda>v. v) x" j] uniform_nth [of "numpy_diff (\<lambda>v. v) x" "Suc j"] assms
      by (simp_all add: h1_def h2_def length_numpy_diff n)
    with True s assms have "gradient_last (\<lambda>v. v) u (map (quadratic a b c) x) (numpy_diff (\<lambda>v. v) x) =
        (0.5 / h1) * (a * (x ! j)\<^sup>2 + b * x ! j + c)
         + (- 2 / h1) * (a * (x ! j + h1)\<^sup>2 + b * (x ! j + h1) + c)
         + (1.5 / h1) * (a * (x ! j + h1 + h1)\<^sup>2 + b * (x ! j + h1 + h1) + c)"
      by (simp add: gradient_last_def weighted_sum_def Let_def quadratic_def n)
    also have "\<dots> = 2 * a * (x ! j + h1 + h1) + b" by (rule quad_last_u [OF s(1)])
    finally show ?thesis using s \<open>h2 = numpy_diff (\<lambda>v. v) x ! 0\<close> \<open>h1 = numpy_diff (\<lambda>v. v) x ! 0\<close> by (simp add: n)
  next
    case False
    with s assms have "gradient_last (\<lambda>v. v) u (map (quadratic a b c) x) (numpy_diff (\<lambda>v. v) x) =
        (h2 / (h1 * (h1 + h2))) * (a * (x ! j)\<^sup>2 + b * x ! j + c)
         + (- (h2 + h1) / (h1 * h2)) * (a * (x ! j + h1)\<^sup>2 + b * (x ! j + h1) + c)
         + ((2 * h2 + h1) / (h2 * (h1 + h2))) * (a * (x ! j + h1 + h2)\<^sup>2 + b * (x ! j + h1 + h2) + c)"
      by (simp add: gradient_last_def weighted_sum_def Let_def quadratic_def n flip: h1_def h2_def)
    also have "\<dots> = 2 * a * (x ! j + h1 + h2) + b" by (rule quad_last_h [OF s(1,2)])
    finally show ?thesis using s by (simp add: n)
  qed
qed

text \<open>
  Claim C10, as amended. For a polynomial of degree at most two sampled at three or more
  strictly increasing points, regularly spaced or not, the difference formulas of the
  differentiator (the central difference at the interior points, the one-sided three-point
  differences at both ends), evaluated in exact real arithmetic, give at every sample
  exactly the analytic derivative.
\<close>

theorem first_derivative_exact_on_quadratics:
  assumes "sorted_wrt (<) x" "3 \<le> length x"
  shows "first_derivative_exact x (map (quadratic a b c) x) = Inr (map (\<lambda>t. 2 * a * t + b) x)"
proof -
  let ?y = "map (quadratic a b c) x"
  let ?dx = "numpy_diff (\<lambda>v. v) x"
  let ?u = "list_all (\<lambda>d. d = ?dx ! 0) ?dx"
  let ?g = "gradient_first (\<lambda>v. v) ?u ?y ?dx # map (gradient_interior (\<lambda>v. v) ?u ?y ?dx) [1..<length x - 1]
            @ [gradient_last (\<lambda>v. v) ?u ?y ?dx]"
  have len: "length ?g = length x" using assms by simp
  have "?g ! i = 2 * a * x ! i + b" if lt: "i < length x" for i
  proof -
    have "i = 0 \<or> (0 < i \<and> Suc i < length x) \<or> (i = length x - 1 \<and> 0 < i)"
      using lt by auto
    then consider "i = 0" | "0 < i" "Suc i < length x" | "i = length x - 1" "0 < i"
      by blast
    then show ?thesis
    proof cases
      case 1
      then show ?thesis using gradient_first_quadratic [OF assms refl] by simp
    next
      case 2
      then have "?g ! i = gradient_interior (\<lambda>v. v) ?u ?y ?dx i"
        by (cases i) (auto simp: nth_append)
      then show ?thesis using gradient_interior_quadratic [OF assms(1) 2 refl] by simp
    next
      case 3
      then have "?g ! i = gradient_last (\<lambda>v. v) ?u ?y ?dx"
        using assms by (cases i) (simp_all add: nth_append)
      then show ?thesis using gradient_last_quadratic [OF assms refl] 3 by simp
    qed
  qed
  then have "?g = map (\<lambda>t. 2 * a * t + b) x"
    using len by (intro nth_equalityI) simp_all
  then show ?thesis
    using assms by (simp add: first_derivative_exact_def numpy_gradient_with_def Let_def)
qed

theorem first_derivative_exact_on_quadratics_witness:
  "sorted_wrt (<) [0, 1, 3, 7 :: real] \<and> 3 \<le> length [0, 1, 3, 7 :: real] \<and>
   first_derivative_exact [0, 1, 3, 7] (map (quadratic 2 (- 3) 5) [0, 1, 3, 7])
     = Inr [- 3, 1, 9, 25]"
  using first_derivative_exact_on_quadratics [of "[0, 1, 3, 7]" 2 "- 3" 5] by simp

text \<open>
  Claim C10 as stated fails in binary64 arithmetic. The quadratic \<open>2 t\<^sup>2 - 3 t + 5\<close> sampled
  at 0, 1, 3, 7 has the values 5, 4, 14, 82 and the derivative -3, 1, 9, 25; the
  differentiator returns \<open>-3 + 2^-50\<close> at the first and \<open>25 + 2^-47\<close> at the last sample.
\<close>

theorem first_derivative_rounds:
  "map (quadratic 2 (- 3) 5) [0, 1, 3, 7] = [5, 4, 14, 82] \<and>
   first_derivative [0, 1, 3, 7] [5, 4, 14, 82]
     = Inr [- 3 + 1 / 2 ^ 50, 1, 9, 25 + 1 / 2 ^ 47] \<and>
   first_derivative [0, 1, 3, 7] [5, 4, 14, 82] \<noteq> Inr [- 3, 1, 9, 25]"
proof -
  have q: "map (quadratic 2 (- 3) 5) [0, 1, 3, 7] = [5, 4, 14, 82]"
    by (simp add: quadratic_def)
  have d: "first_derivative [0, 1, 3, 7] [5, 4, 14, 82]
             = Inr [- 3 + 1 / 2 ^ 50, 1, 9, 25 + 1 / 2 ^ 47]"
    by code_simp
  from q d show ?thesis by simp
qed

subsection \<open>Evaluating a velocity profile\<close>

lemma numpy_gradient_length:
  "numpy_gradient f x = Inr d \<Longrightarrow> length d = length f \<and> length x = length f \<and> 3 \<le> length f"
  by (auto simp: numpy_gradient_def numpy_gradient_with_def Let_def split: if_splits)

lemma first_derivative_length:
  "first_derivative x y = Inr d \<Longrightarrow> length d = length y \<and> length x = length y \<and> 3 \<le> length y"
  unfolding first_derivative_def by (rule numpy_gradient_length)

lemma interp_scan_segment:
  assumes "sorted_wrt (<) xp" "length fp = length xp" "Suc j < length xp"
    "xp ! j \<le> t" "t < xp ! Suc j"
  shows "interp_scan t xp fp =
           fp ! j + (fp ! Suc j - fp ! j) / (xp ! Suc j - xp ! j) * (t - xp ! j)"
  using assms
proof (induction t xp fp arbitrary: j rule: interp_scan.induct)
  case (1 x x0 x1 xs y0 y1 ys)
  show ?case
  proof (cases j)
    case 0
    with 1 show ?thesis by simp
  next
    case (Suc k)
    have "x1 \<le> (x1 # xs) ! k"
      using "1.prems" Suc by (cases k) (auto simp: less_imp_le)
    with "1.prems" Suc have "\<not> x < x1" by simp
    with 1 Suc show ?thesis by simp
  qed
qed simp_all

lemma strict_sorted_nth_le:
  "sorted_wrt (<) (xs :: real list) \<Longrightarrow> i \<le> j \<Longrightarrow> j < length xs \<Longrightarrow> xs ! i \<le> xs ! j"
  using sorted_wrt_nth_less [of "(<)" xs i j] by (cases "i = j") auto

lemma interp_scan_beyond:
  assumes "\<forall>x\<in>set xp. x \<le> t" "length fp = length xp" "xp \<noteq> []"
  shows "interp_scan t xp fp = last fp"
  using assms
proof (induction xp arbitrary: fp)
  case Nil
  then show ?case by simp
next
  case (Cons x0 xs)
  then obtain y0 ys where fp: "fp = y0 # ys" by (cases fp) auto
  show ?case
  proof (cases xs)
    case Nil
    with Cons.prems fp show ?thesis by simp
  next
    case (Cons x1 xs')
    with Cons.prems fp obtain y1 ys' where ys: "ys = y1 # ys'" by (cases ys) auto
    have "\<not> t < x1" using Cons.prems(1) Cons by auto
    moreover have "interp_scan t xs ys = last ys"
      using Cons.prems fp Cons by (intro Cons.IH) auto
    ultimately show ?thesis using fp ys Cons by simp
  qed
qed

lemma interp_scan_last:
  assumes "sorted_wrt (<) xp" "length fp = length xp" "xp \<noteq> []"
  shows "interp_scan (last xp) xp fp = last fp"
proof -
  have "\<forall>x\<in>set xp. x \<le> last xp"
  proof
    fix x assume "x \<in> set xp"
    then obtain i where "i < length xp" "x = xp ! i" by (auto simp: in_set_conv_nth)
    then show "x \<le> last xp"
      using strict_sorted_nth_le [OF assms(1), of i "length xp - 1"] assms(3)
      by (simp add: last_conv_nth)
  qed
  then show ?thesis using assms(2,3) by (rule interp_scan_beyond)
qed

lemma VolumeProfile_init_lengths:
  assumes "VolumeProfile_init volume_history = Inr self"
  shows "length (velocity self) = length (times self) \<and> 3 \<le> length (times self)"
  using assms
  by (cases volume_history)
     (auto simp: VolumeProfile_init_def Let_def bind_error_eq_Inr
           dest!: first_derivative_length split: if_splits)

lemma PressureRiseProfile_init_lengths:
  assumes "PressureRiseProfile_init density_SP rho0 p0 rise time_end = Inr self"
  shows "length (velocity self) = length (times self) \<and> 3 \<le> length (times self)"
  using assms
  by (auto simp: PressureRiseProfile_init_def bind_error_eq_Inr
           dest!: first_derivative_length split: prod.splits)

text \<open>
  The number of samples of \<open>numpy.arange\<close> follows the rounded quotient: from 0 to
  \<open>2 + 1/3\<close> in steps of \<open>1/3\<close> there are eight samples, one more than in exact arithmetic.
\<close>

lemma length_numpy_arange:
  "length (numpy_arange start stop step) = nat \<lceil>float64 (float64 (stop - start) / step)\<rceil>"
  by (simp add: numpy_arange_def Let_def)

lemma numpy_arange_rounded_length:
  "length (numpy_arange 0 (float64 (2 + float64 (1 / 3))) (float64 (1 / 3))) = 8"
  unfolding length_numpy_arange by code_simp

text \<open>
  Claim C8. For every profile that one of the two constructors has built and every time
  \<open>t\<close>: strictly before the first or strictly after the last sampled time the profile
  evaluates to exactly 0; inside the sampled range, with strictly increasing sample times, it
  evaluates to the value at \<open>t\<close> of the straight line through the two neighbouring stored
  samples, and at the last sample time to the last stored velocity.
\<close>

theorem VolumeProfile_call_contract:
  assumes "VolumeProfile_init volume_history = Inr self \<or>
           PressureRiseProfile_init density_SP rho0 p0 rise time_end = Inr self"
  shows "(t < times self ! 0 \<or> last (times self) < t \<longrightarrow> VolumeProfile_call self t = Inr 0) \<and>
         (sorted_wrt (<) (times self) \<and> Suc j < length (times self) \<and>
          times self ! j \<le> t \<and> t < times self ! Suc j \<longrightarrow>
            VolumeProfile_call self t =
              Inr (velocity self ! j
                   + (velocity self ! Suc j - velocity self ! j)
                     / (times self ! Suc j - times self ! j) * (t - times self ! j))) \<and>
         (sorted_wrt (<) (times self) \<and> t = last (times self) \<longrightarrow>
            VolumeProfile_call self t = Inr (last (velocity self)))"
proof -
  have len: "length (velocity self) = length (times self)" and n: "3 \<le> length (times self)"
    using assms VolumeProfile_init_lengths PressureRiseProfile_init_lengths by blast+
  then have ne: "times self \<noteq> []" by auto
  have outside: "VolumeProfile_call self t = Inr 0"
    if "t < times self ! 0 \<or> last (times self) < t"
    using that len ne by (auto simp: VolumeProfile_call_def numpy_interp_def)
  have inside: "VolumeProfile_call self t =
                 Inr (velocity self ! j
                      + (velocity self ! Suc j - velocity self ! j)
                        / (times self ! Suc j - times self ! j) * (t - times self ! j))"
    if s: "sorted_wrt (<) (times self)" and j: "Suc j < length (times self)"
      "times self ! j \<le> t" "t < times self ! Suc j"
  proof -
    have "times self ! 0 \<le> times self ! j"
      using strict_sorted_nth_le [OF s, of 0 j] j(1) by simp
    then have lo: "\<not> t < times self ! 0" using j(2) by simp
    have "times self ! Suc j \<le> last (times self)"
      using strict_sorted_nth_le [OF s, of "Suc j" "length (times self) - 1"] j(1) ne
      by (simp add: last_conv_nth)
    then have hi: "\<not> last (times self) < t" using j(3) by simp
    show ?thesis
      using lo hi len ne interp_scan_segment [OF s len j]
      by (simp add: VolumeProfile_call_def numpy_interp_def)
  qed
  have at_end: "VolumeProfile_call self t = Inr (last (velocity self))"
    if s: "sorted_wrt (<) (times self)" and t: "t = last (times self)"
  proof -
    have "times self ! 0 \<le> last (times self)"
      using strict_sorted_nth_le [OF s, of 0 "length (times self) - 1"] ne
      by (simp add: last_conv_nth)
    then show ?thesis
      using t len ne interp_scan_last [OF s len ne]
      by (simp add: VolumeProfile_call_def numpy_interp_def)
  qed
  from outside inside at_end show ?thesis by blast
qed

theorem VolumeProfile_call_contract_witness:
  "VolumeProfile_init ([0, 1, 2], [2, 1, 1])
     = Inr \<lparr>times = [0, 1, 2], velocity = [- 3 / 4, - 1 / 4, 1 / 4]\<rparr> \<and>
   VolumeProfile_call \<lparr>times = [0, 1, 2], velocity = [- 3 / 4, - 1 / 4, 1 / 4]\<rparr> 5 = Inr 0 \<and>
   VolumeProfile_call \<lparr>times = [0, 1, 2], velocity = [- 3 / 4, - 1 / 4, 1 / 4]\<rparr> (1 / 2)
     = Inr (- 1 / 2)"
proof -
  let ?p = "\<lparr>times = [0, 1, 2], velocity = [- 3 / 4, - 1 / 4, 1 / 4]\<rparr>"
  have init: "VolumeProfile_init ([0, 1, 2], [2, 1, 1]) = Inr ?p"
    by code_simp
  have "VolumeProfile_call ?p 5 = Inr 0"
    using VolumeProfile_call_contract [OF disjI1 [OF init], of 5] by simp
  moreover have "VolumeProfile_call ?p (1 / 2) = Inr (- 1 / 2)"
    using VolumeProfile_call_contract [OF disjI1 [OF init], of "1 / 2" 0] by simp
  ultimately show ?thesis using init by simp
qed

subsection \<open>Resolving the ignition target\<close>

lemma try_species_none:
  "list_all (\<lambda>sp. species_index sp = None) names \<Longrightarrow> try_species species_index names = None"
  by (induction names) auto

lemma try_species_first:
  "try_species species_index names = Some i \<longleftrightarrow>
     (\<exists>pre sp rest. names = pre @ sp # rest \<and> list_all (\<lambda>n. species_index n = None) pre \<and>
        species_index sp = Some i)"
proof (induction names)
  case Nil
  then show ?case by simp
next
  case (Cons a names)
  show ?case
  proof (cases "species_index a")
    case None
    have "(\<exists>pre sp rest. a # names = pre @ sp # rest \<and> list_all (\<lambda>n. species_index n = None) pre \<and>
        species_index sp = Some i) \<longleftrightarrow> (\<exists>pre sp rest. names = pre @ sp # rest \<and> list_all (\<lambda>n. species_index n = None) pre \<and>
        species_index sp = Some i)" (is "?L \<longleftrightarrow> ?R")
    proof
      assume ?L
      then obtain pre sp rest where *: "a # names = pre @ sp # rest"
        "list_all (\<lambda>n. species_index n = None) pre" "species_index sp = Some i" by blast
      with None obtain pre' where "pre = a # pre'" by (cases pre) auto
      with * show ?R by auto
    next
      assume ?R
      then obtain pre sp rest where *: "names = pre @ sp # rest"
        "list_all (\<lambda>n. species_index n = None) pre" "species_index sp = Some i" by blast
      then have "a # names = (a # pre) @ sp # rest" "list_all (\<lambda>n. species_index n = None) (a # pre)"
        using None by auto
      with * show ?L by blast
    qed
    with None Cons show ?thesis by simp
  next
    case (Some k)
    have "(\<exists>pre sp rest. a # names = pre @ sp # rest \<and> list_all (\<lambda>n. species_index n = None) pre \<and>
        species_index sp = Some i) \<longleftrightarrow> k = i" (is "?L \<longleftrightarrow> _")
    proof
      assume ?L
      then obtain pre sp rest where *: "a # names = pre @ sp # rest"
        "list_all (\<lambda>n. species_index n = None) pre" "species_index sp = Some i" by blast
      show "k = i"
      proof (cases pre)
        case Nil
        with * Some show ?thesis by simp
      next
        case (Cons b pre')
        with * Some show ?thesis by simp
      qed
    next
      assume "k = i"
      then have "a # names = [] @ a # names \<and> list_all (\<lambda>n. species_index n = None) [] \<and>
        species_index a = Some i" using Some by simp
      then show ?L by blast
    qed
    with Some show ?thesis by simp
  qed
qed

lemma setup_case_ignition_found:
  assumes "target \<noteq> ''pressure''" "target \<noteq> ''temperature''"
    and "try_list target = Inr names"
    and "try_species species_index names = Some (Suc i)"
  shows "setup_case_ignition species_index target type =
           Inr \<lparr>ignition_target = Species (Suc i), ignition_type = type, printed = []\<rparr>"
  using assms by (simp add: setup_case_ignition_def)

lemma setup_case_ignition_scalar:
  assumes "target = ''pressure'' \<or> target = ''temperature''"
  shows "setup_case_ignition species_index target type =
           Inr \<lparr>ignition_target = (if target = ''pressure'' then Pressure else Temperature),
                ignition_type = type, printed = []\<rparr>"
  using assms by (auto simp: setup_case_ignition_def)

text \<open>
  Claim C9, as amended. For every non-empty target label other than \<open>pressure\<close> and
  \<open>temperature\<close>, none of whose candidates (the label, its lower-case form and, when it ends
  in \<open>*\<close>, the label without the marker and its lower-case form) is a known species, the
  resolver does not raise: it prints the warning and sets the target to \<open>pressure\<close> with the
  type \<open>d/dt max\<close>.
\<close>

theorem setup_case_ignition_fallback:
  assumes "target \<noteq> ''pressure''" "target \<noteq> ''temperature''" "target \<noteq> []"
    and "species_index target = None" "species_index (lower target) = None"
    and "last target = CHR ''*'' \<longrightarrow>
           species_index (butlast target) = None \<and> species_index (lower (butlast target)) = None"
  shows "setup_case_ignition species_index target type =
           Inr \<lparr>ignition_target = Pressure, ignition_type = ''d/dt max'',
                printed = [''Warning: '' @ target @ '' not found in model; ''
                             @ ''falling back on pressure.'']\<rparr>"
proof -
  obtain names where names: "try_list target = Inr names"
    "list_all (\<lambda>sp. species_index sp = None) names"
    using assms by (cases "last target = CHR ''*''") (auto simp: try_list_def)
  from try_species_none [OF names(2)] names(1) assms(1,2)
  show ?thesis by (simp add: setup_case_ignition_def)
qed

theorem setup_case_ignition_fallback_witness:
  "''OH*'' \<noteq> ''pressure'' \<and> ''OH*'' \<noteq> ''temperature'' \<and> ''OH*'' \<noteq> [] \<and>
   species_index_of [''H2'', ''O2''] ''OH*'' = None \<and>
   species_index_of [''H2'', ''O2''] (lower ''OH*'') = None \<and>
   species_index_of [''H2'', ''O2''] (butlast ''OH*'') = None \<and>
   species_index_of [''H2'', ''O2''] (lower (butlast ''OH*'')) = None \<and>
   setup_case_ignition (species_index_of [''H2'', ''O2'']) ''OH*'' ''max'' =
     Inr \<lparr>ignition_target = Pressure, ignition_type = ''d/dt max'',
          printed = [''Warning: OH* not found in model; falling back on pressure.'']\<rparr>"
proof -
  have l1: "lower ''OH*'' = ''oh*''" by code_simp
  have l2: "lower ''OH'' = ''oh''" by code_simp
  show ?thesis
    using setup_case_ignition_fallback [of "''OH*''" "species_index_of [''H2'', ''O2'']" "''max''"]
    by (simp add: l1 l2)
qed

text \<open>
  Claim C9 as stated fails at two labels none of whose candidates is a known species: the
  empty label, where \<open>spec[-1]\<close> raises, and the label \<open>temperature\<close>, which resolves to
  itself with its type unchanged and without a warning.
\<close>

theorem setup_case_ignition_no_fallback:
  "species_index_of [''H2'', ''O2''] [] = None \<and>
   setup_case_ignition (species_index_of [''H2'', ''O2'']) [] ''max'' = Inl IndexError \<and>
   species_index_of [''H2'', ''O2''] ''temperature'' = None \<and>
   setup_case_ignition (species_index_of [''H2'', ''O2'']) ''temperature'' ''max'' =
     Inr \<lparr>ignition_target = Temperature, ignition_type = ''max'', printed = []\<rparr>"
  by (simp add: setup_case_ignition_def try_list_def)

text \<open>
  Claim C3. The claim promises the index of the first known candidate also when that index
  is 0. The code tests the index for truth: a label that is the species of index 0 falls
  back to \<open>pressure\<close> with the type \<open>d/dt max\<close>, as if it were unknown.
\<close>

theorem setup_case_ignition_index_zero:
  assumes "target \<noteq> ''pressure''" "target \<noteq> ''temperature''" "target \<noteq> []"
    and "species_index target = Some 0"
  shows "setup_case_ignition species_index target type =
           Inr \<lparr>ignition_target = Pressure, ignition_type = ''d/dt max'',
                printed = [''Warning: '' @ target @ '' not found in model; ''
                             @ ''falling back on pressure.'']\<rparr>"
  using assms by (simp add: setup_case_ignition_def try_list_def)

theorem setup_case_ignition_index_zero_witness:
  "''H2'' \<noteq> ''pressure'' \<and> ''H2'' \<noteq> ''temperature'' \<and> ''H2'' \<noteq> [] \<and>
   species_index_of [''H2'', ''O2''] ''H2'' = Some 0 \<and>
   setup_case_ignition (species_index_of [''H2'', ''O2'']) ''H2'' ''max'' =
     Inr \<lparr>ignition_target = Pressure, ignition_type = ''d/dt max'',
          printed = [''Warning: H2 not found in model; falling back on pressure.'']\<rparr>"
  using setup_case_ignition_index_zero [of "''H2''" "species_index_of [''H2'', ''O2'']" "''max''"]
  by simp

subsection \<open>The integration loop\<close>



text \<open>
  A step that passes the target end time after at least one recorded step: the final row is
  the linear interpolation, field by field, between the previous raw state and the new one,
  and so lies between the two.
\<close>

lemma interp_end_value:
  assumes "t0 < te" "te < t1"
  shows "interp_end te t0 t1 y0 y1 = Inr (line_at te t0 t1 y0 y1)"
  using assms by (simp add: interp_end_def numpy_interp_def line_at_def)

lemma line_at_between:
  assumes "t0 < te" "te < t1"
  shows "min y0 y1 \<le> line_at te t0 t1 y0 y1 \<and> line_at te t0 t1 y0 y1 \<le> max y0 y1"
proof -
  define w where "w = (te - t0) / (t1 - t0)"
  have w: "0 \<le> w" "w \<le> 1" using assms by (simp_all add: w_def)
  have eq: "line_at te t0 t1 y0 y1 = y0 + w * (y1 - y0)"
    by (simp add: line_at_def w_def)
  show ?thesis
  proof (cases "y0 \<le> y1")
    case True
    have "0 \<le> w * (y1 - y0)" using True w by simp
    moreover have "w * (y1 - y0) \<le> y1 - y0"
      using mult_right_mono [of w 1 "y1 - y0"] True w by simp
    ultimately have "y0 \<le> y0 + w * (y1 - y0) \<and> y0 + w * (y1 - y0) \<le> y1" by linarith
    with True show ?thesis unfolding eq by (simp only: min_def max_def if_True)
  next
    case False
    then have neg: "y1 - y0 \<le> 0" by simp
    have "w * (y1 - y0) \<le> 0" using neg w by (simp add: mult_nonneg_nonpos)
    moreover have "y1 - y0 \<le> w * (y1 - y0)"
      using mult_right_mono_neg [of w 1 "y1 - y0"] neg w by simp
    ultimately have "y1 \<le> y0 + w * (y1 - y0) \<and> y0 + w * (y1 - y0) \<le> y0" by linarith
    with False show ?thesis unfolding eq by (simp only: min_def max_def if_False)
  qed
qed

lemma interp_mass_fracs_value:
  assumes "t0 < te" "te < t1" "list_all (\<lambda>i. i < length prevY) idx"
  shows "interp_mass_fracs te t0 t1 prevY Y idx =
           Inr (map (\<lambda>i. line_at te t0 t1 (prevY ! i) (Y ! i)) idx)"
  using assms(3) by (induction idx) (simp_all add: interp_end_value [OF assms(1,2)])

lemma interp_timestep_value:
  assumes "time prev < te" "te < time new"
    "length (mass_fractions new) \<le> length (mass_fractions prev)"
  shows "interp_timestep te prev new =
           Inr \<lparr>time = te,
                temperature = line_at te (time prev) (time new) (temperature prev) (temperature new),
                pressure = line_at te (time prev) (time new) (pressure prev) (pressure new),
                volume = line_at te (time prev) (time new) (volume prev) (volume new),
                mass_fractions =
                  map (\<lambda>i. line_at te (time prev) (time new)
                              (mass_fractions prev ! i) (mass_fractions new ! i))
                    [0..<length (mass_fractions new)]\<rparr>"
proof -
  have "list_all (\<lambda>i. i < length (mass_fractions prev)) [0..<length (mass_fractions new)]"
    using assms(3) by (simp add: list_all_iff)
  then show ?thesis
    by (simp add: interp_timestep_def interp_end_value [OF assms(1,2)]
          interp_mass_fracs_value [OF assms(1,2)])
qed

lemma integration_loop_raw_step:
  assumes "time (obs s) < time_end" "time (obs (step s)) \<le> time_end"
  shows "integration_loop step obs time_end s prev table =
           integration_loop step obs time_end (step s) (Some (obs (step s)))
             (table @ [obs (step s)])"
  using assms by (subst integration_loop.simps) simp

lemma integration_loop_final_step:
  assumes "time (obs s) < time_end" "time_end < time (obs (step s))"
    "interp_timestep time_end p (obs (step s)) = Inr row"
  shows "integration_loop step obs time_end s (Some p) table = Some (Inr (table @ [row]))"
proof -
  have "integration_loop step obs time_end s (Some p) table =
          integration_loop step obs time_end (step s) (Some (obs (step s))) (table @ [row])"
    using assms by (subst integration_loop.simps) simp
  also have "\<dots> = Some (Inr (table @ [row]))"
    using assms(2) by (subst integration_loop.simps) simp
  finally show ?thesis .
qed

lemma integration_loop_raw_steps:
  assumes "\<forall>k<n. time (obs ((step ^^ k) s)) < time_end \<and>
                   time (obs ((step ^^ Suc k) s)) \<le> time_end"
  shows "integration_loop step obs time_end s prev table =
           integration_loop step obs time_end ((step ^^ n) s)
             (if n = 0 then prev else Some (obs ((step ^^ n) s)))
             (table @ map (\<lambda>k. obs ((step ^^ k) s)) [1..<Suc n])"
  using assms
proof (induction n)
  case 0
  then show ?case by simp
next
  case (Suc n)
  have steps: "\<forall>k<n. time (obs ((step ^^ k) s)) < time_end \<and>
                   time (obs ((step ^^ Suc k) s)) \<le> time_end"
    using Suc.prems by simp
  have last: "time (obs ((step ^^ n) s)) < time_end"
    "time (obs (step ((step ^^ n) s))) \<le> time_end"
    using Suc.prems by simp_all
  have "integration_loop step obs time_end s prev table =
          integration_loop step obs time_end ((step ^^ n) s)
             (if n = 0 then prev else Some (obs ((step ^^ n) s)))
             (table @ map (\<lambda>k. obs ((step ^^ k) s)) [1..<Suc n])"
    by (rule Suc.IH [OF steps])
  also have "\<dots> = integration_loop step obs time_end (step ((step ^^ n) s))
             (Some (obs (step ((step ^^ n) s))))
             ((table @ map (\<lambda>k. obs ((step ^^ k) s)) [1..<Suc n]) @ [obs (step ((step ^^ n) s))])"
    by (rule integration_loop_raw_step [where s = "(step ^^ n) s" and step = step and obs = obs,
          OF last])
  finally show ?case by simp
qed

lemma run_case_overshoot_interpolates:
  assumes steps: "\<forall>k<n. time (obs ((step ^^ k) s)) < time_end \<and>
                   time (obs ((step ^^ Suc k) s)) \<le> time_end"
    and n: "0 < n"
    and before: "time (obs ((step ^^ n) s)) < time_end"
    and over: "time_end < time (obs ((step ^^ Suc n) s))"
    and len: "length (mass_fractions (obs ((step ^^ Suc n) s)))
                \<le> length (mass_fractions (obs ((step ^^ n) s)))"
    and run: "\<not> (restart \<and> isfile)"
    and p: "p = obs ((step ^^ n) s)" and new: "new = obs ((step ^^ Suc n) s)"
  shows "run_case step obs time_end s restart isfile =
           Some (Inr (Some (map (\<lambda>k. obs ((step ^^ k) s)) [0..<Suc n] @
             [\<lparr>time = time_end,
               temperature = line_at time_end (time p) (time new) (temperature p) (temperature new),
               pressure = line_at time_end (time p) (time new) (pressure p) (pressure new),
               volume = line_at time_end (time p) (time new) (volume p) (volume new),
               mass_fractions =
                 map (\<lambda>i. line_at time_end (time p) (time new)
                             (mass_fractions p ! i) (mass_fractions new ! i))
                   [0..<length (mass_fractions new)]\<rparr>])))"
proof -
  let ?row = "\<lparr>time = time_end,
               temperature = line_at time_end (time p) (time new) (temperature p) (temperature new),
               pressure = line_at time_end (time p) (time new) (pressure p) (pressure new),
               volume = line_at time_end (time p) (time new) (volume p) (volume new),
               mass_fractions =
                 map (\<lambda>i. line_at time_end (time p) (time new)
                             (mass_fractions p ! i) (mass_fractions new ! i))
                   [0..<length (mass_fractions new)]\<rparr>"
  have row: "interp_timestep time_end p (obs (step ((step ^^ n) s))) = Inr ?row"
    using interp_timestep_value [of p time_end new] before over len p new by simp
  have "integration_loop step obs time_end s None [obs s] =
          integration_loop step obs time_end ((step ^^ n) s) (Some p)
            ([obs s] @ map (\<lambda>k. obs ((step ^^ k) s)) [1..<Suc n])"
    using integration_loop_raw_steps [OF steps, of None "[obs s]"] n p by simp
  also have "\<dots> = Some (Inr (([obs s] @ map (\<lambda>k. obs ((step ^^ k) s)) [1..<Suc n]) @ [?row]))"
    using before over row by (intro integration_loop_final_step) simp_all
  also have "[obs s] @ map (\<lambda>k. obs ((step ^^ k) s)) [1..<Suc n]
               = map (\<lambda>k. obs ((step ^^ k) s)) [0..<Suc n]"
    by (simp add: upt_conv_Cons del: upt_Suc)
  finally show ?thesis
    using run by (simp add: run_case_def)
qed




text \<open>
  Claim C4. The claim covers every run in which a step passes the target end time. When the
  first step already does so, the variables \<open>prev_time\<close>, \<open>prev_temp\<close>, ... are still
  unbound, and the run raises instead of writing the interpolated final row.
\<close>

theorem run_case_first_step_overshoot:
  assumes "time (obs s) < time_end" "time_end < time (obs (step s))" "\<not> (restart \<and> isfile)"
  shows "run_case step obs time_end s restart isfile = Some (Inl UnboundLocalError)"
  using assms by (simp add: run_case_def integration_loop.simps)

theorem run_case_first_step_overshoot_witness:
  "time (steady_reactor 3 0) < 1 \<and> 1 < time (steady_reactor 3 (Suc 0)) \<and>
   run_case Suc (steady_reactor 3) 1 0 False False = Some (Inl UnboundLocalError)"
  using run_case_first_step_overshoot [of "steady_reactor 3" 0 1 Suc False False]
  by (simp add: steady_reactor_def)

subsection \<open>Extracting the ignition delays\<close>

lemma argmax_scan_correct:
  assumes "ys = pre @ xs" "best < length pre" "ys ! best = v" "\<forall>j<length pre. ys ! j \<le> v"
  shows "argmax_scan xs (length pre) best v < length ys \<and>
         (\<forall>j<length ys. ys ! j \<le> ys ! argmax_scan xs (length pre) best v)"
  using assms
proof (induction xs arbitrary: pre best v)
  case Nil
  then show ?case by simp
next
  case (Cons x xs)
  have ys: "ys = (pre @ [x]) @ xs" using Cons.prems by simp
  have x: "ys ! length pre = x" using Cons.prems by simp
  show ?case
  proof (cases "v < x")
    case True
    have "\<forall>j<length (pre @ [x]). ys ! j \<le> x"
      using Cons.prems True x by (auto simp: less_Suc_eq)
    from Cons.IH [OF ys _ x this] True show ?thesis by simp
  next
    case False
    have "\<forall>j<length (pre @ [x]). ys ! j \<le> v"
      using Cons.prems False x by (auto simp: less_Suc_eq)
    from Cons.IH [OF ys _ Cons.prems(3) this] Cons.prems(2) False show ?thesis by simp
  qed
qed

lemma numpy_argmax_correct:
  assumes "xs \<noteq> []"
  shows "\<exists>k. numpy_argmax xs = Inr k \<and> k < length xs \<and> (\<forall>j<length xs. xs ! j \<le> xs ! k)"
proof -
  obtain x rest where xs: "xs = x # rest" using assms by (cases xs) auto
  have "argmax_scan rest (length [x]) 0 x < length xs \<and>
        (\<forall>j<length xs. xs ! j \<le> xs ! argmax_scan rest (length [x]) 0 x)"
    by (rule argmax_scan_correct) (simp_all add: xs)
  then show ?thesis by (simp add: numpy_argmax_def xs)
qed




text \<open>
  In an ascending list the peaks up to the largest one form a prefix, so a position within
  the selection is the same position within the whole list.
\<close>

lemma filter_le_prefix:
  "sorted_wrt (<) (xs :: nat list) \<Longrightarrow>
     filter (\<lambda>i. i \<le> m) xs = take (length (filter (\<lambda>i. i \<le> m) xs)) xs"
proof (induction xs)
  case Nil
  then show ?case by simp
next
  case (Cons x xs)
  show ?case
  proof (cases "x \<le> m")
    case True
    with Cons show ?thesis by simp
  next
    case False
    then have "filter (\<lambda>i. i \<le> m) xs = []"
      using Cons.prems by (auto simp: filter_empty_conv)
    with False show ?thesis by simp
  qed
qed

lemma map_nth_filter_positions:
  "map (\<lambda>j. xs ! j) (filter (\<lambda>j. Q (xs ! j)) [0..<length xs]) = filter Q xs"
proof -
  have "filter Q xs = filter Q (map (\<lambda>j. xs ! j) [0..<length xs])"
    by (simp add: map_nth)
  also have "\<dots> = map (\<lambda>j. xs ! j) (filter (\<lambda>j. Q (xs ! j)) [0..<length xs])"
    by (simp add: filter_map comp_def)
  finally show ?thesis by simp
qed

lemma ign_delays_max_sorted:
  assumes "sorted_wrt (<) ind" "list_all (\<lambda>i. i < length ts) ind"
  shows "ign_delays_max ts ind max_ind time_comp =
           Inr (map (\<lambda>i. ts ! i - time_comp) (qualifying_peaks ts ind max_ind time_comp))"
proof -
  define sel where "sel = filter (\<lambda>i. i \<le> max_ind) ind"
  have sel_take: "sel = take (length sel) ind"
    unfolding sel_def by (rule filter_le_prefix [OF assms(1)])
  have sel_range: "list_all (\<lambda>i. i < length ts) sel"
    using assms(2) by (auto simp: sel_def list_all_iff)
  define pos where "pos = filter (\<lambda>j. 0 < map (\<lambda>i. ts ! i) sel ! j - time_comp) [0..<length sel]"
  have pos_eq: "pos = filter (\<lambda>j. 0 < ts ! (sel ! j) - time_comp) [0..<length sel]"
    unfolding pos_def by (rule filter_cong) auto
  have pos_range: "list_all (\<lambda>j. j < length ind) pos"
  proof -
    have "length sel \<le> length ind" by (simp add: sel_def)
    then show ?thesis by (auto simp: pos_def list_all_iff)
  qed
  have "map (\<lambda>j. ind ! j) pos = map (\<lambda>j. sel ! j) pos"
  proof (rule map_cong [OF refl])
    fix j assume "j \<in> set pos"
    then have "j < length sel" by (auto simp: pos_def)
    then have "take (length sel) ind ! j = ind ! j" by simp
    then show "ind ! j = sel ! j" using sel_take by simp
  qed
  also have "\<dots> = filter (\<lambda>i. 0 < ts ! i - time_comp) sel"
    unfolding pos_eq by (rule map_nth_filter_positions)
  also have "\<dots> = qualifying_peaks ts ind max_ind time_comp"
    by (simp add: sel_def qualifying_peaks_def conj_commute)
  finally have sel_ind: "map (\<lambda>j. ind ! j) pos = qualifying_peaks ts ind max_ind time_comp" .
  have q_range: "list_all (\<lambda>i. i < length ts) (qualifying_peaks ts ind max_ind time_comp)"
    using assms(2) by (auto simp: qualifying_peaks_def list_all_iff)
  have 1: "take_indices ts sel = Inr (map (\<lambda>i. ts ! i) sel)"
    using sel_range by (simp add: take_indices_def)
  have 2: "take_indices ind pos = Inr (map (\<lambda>j. ind ! j) pos)"
    using pos_range by (simp add: take_indices_def)
  have 3: "take_indices ts (qualifying_peaks ts ind max_ind time_comp) =
             Inr (map (\<lambda>i. ts ! i) (qualifying_peaks ts ind max_ind time_comp))"
    using q_range by (simp add: take_indices_def)
  have "ign_delays_max ts ind max_ind time_comp =
          bind_error (take_indices ts sel) (\<lambda>sel_times.
            bind_error
              (take_indices ind
                 (filter (\<lambda>j. 0 < sel_times ! j - time_comp) [0..<length sel_times]))
              (\<lambda>sel_ind. bind_error (take_indices ts sel_ind)
                 (\<lambda>peak_times. Inr (map (\<lambda>t. t - time_comp) peak_times))))"
    by (simp only: ign_delays_max_def Let_def sel_def)
  also have "\<dots> = bind_error (take_indices ind pos)
              (\<lambda>sel_ind. bind_error (take_indices ts sel_ind)
                 (\<lambda>peak_times. Inr (map (\<lambda>t. t - time_comp) peak_times)))"
    by (simp only: 1 bind_error_Inr length_map pos_def)
  also have "\<dots> = Inr (map (\<lambda>i. ts ! i - time_comp) (qualifying_peaks ts ind max_ind time_comp))"
    by (simp only: 2 bind_error_Inr sel_ind 3 map_map comp_def)
  finally show ?thesis .
qed

lemma target_col_length: "target_col tgt table = Inr target \<Longrightarrow> length target = length table"
  by (cases tgt) (auto simp: target_col_def split: if_splits)

lemma find_peaks_length:
  assumes "find_peaks detect_peaks type ts target0 = Inr (target, ind)"
  shows "length target = length target0"
  using assms
  by (auto simp: find_peaks_def Let_def bind_error_eq_Inr
           dest: first_derivative_length split: if_splits)

lemma largest_peak_correct:
  assumes "ind \<noteq> []" "list_all (\<lambda>i. i < length target) ind"
  shows "\<exists>m. largest_peak target ind = Inr m \<and> m \<in> set ind \<and>
             (\<forall>i\<in>set ind. target ! i \<le> target ! m)"
proof -
  let ?peaks = "map (\<lambda>i. target ! i) ind"
  have "?peaks \<noteq> []" using assms by simp
  from numpy_argmax_correct [OF this]
  obtain k where k: "numpy_argmax ?peaks = Inr k" "k < length ind"
    "\<forall>j<length ind. target ! (ind ! j) \<le> target ! (ind ! k)"
    by auto
  have "largest_peak target ind = Inr (ind ! k)"
    using assms k by (simp add: largest_peak_def take_indices_def)
  moreover have "ind ! k \<in> set ind" using k by simp
  moreover have "\<forall>i\<in>set ind. target ! i \<le> target ! (ind ! k)"
    using k by (auto simp: in_set_conv_nth)
  ultimately show ?thesis by blast
qed

lemma largest_peak_empty: "largest_peak target [] = Inl ValueError"
  by (simp add: largest_peak_def take_indices_def numpy_argmax_def)

lemma max_branch_unfold:
  assumes type: "type = ''max'' \<or> type = ''d/dt max''"
    and col: "target_col tgt table = Inr target0"
    and peaks: "find_peaks detect_peaks type (map time table) target0 = Inr (target, ind)"
  shows "process_results detect_peaks tgt type compression_time table =
           bind_error (largest_peak target ind) (\<lambda>max_ind.
           bind_error (ign_delays_max (map time table) ind max_ind (time_comp_of compression_time))
             (\<lambda>ign_delays. Inr (report_delays ign_delays)))"
  using type by (auto simp: process_results_def col peaks Let_def)

lemma max_branch_result:
  assumes type: "type = ''max'' \<or> type = ''d/dt max''"
    and col: "target_col tgt table = Inr target0"
    and peaks: "find_peaks detect_peaks type (map time table) target0 = Inr (target, ind)"
    and ne: "ind \<noteq> []"
    and sorted: "sorted_wrt (<) ind"
    and range: "list_all (\<lambda>i. i < length table) ind"
  shows "\<exists>max_ind. largest_peak target ind = Inr max_ind \<and> max_ind \<in> set ind \<and>
           (\<forall>i\<in>set ind. target ! i \<le> target ! max_ind) \<and>
           process_results detect_peaks tgt type compression_time table =
             Inr (report_delays (map (\<lambda>i. map time table ! i - time_comp_of compression_time)
                    (qualifying_peaks (map time table) ind max_ind (time_comp_of compression_time))))"
proof -
  have len: "length target = length table"
    using find_peaks_length [OF peaks] target_col_length [OF col] by simp
  with range have "list_all (\<lambda>i. i < length target) ind" by simp
  from largest_peak_correct [OF ne this]
  obtain m where m: "largest_peak target ind = Inr m" "m \<in> set ind"
    "\<forall>i\<in>set ind. target ! i \<le> target ! m" by blast
  have "list_all (\<lambda>i. i < length (map time table)) ind" using range by simp
  from ign_delays_max_sorted [OF sorted this]
  have "process_results detect_peaks tgt type compression_time table =
             Inr (report_delays (map (\<lambda>i. map time table ! i - time_comp_of compression_time)
                    (qualifying_peaks (map time table) ind m (time_comp_of compression_time))))"
    by (simp add: max_branch_unfold [OF type col peaks] m)
  with m show ?thesis by blast
qed

text \<open>The detector of the concrete cases keeps the contract the theorems ask of a detector.\<close>

lemma local_maxima_contract:
  "sorted_wrt (<) (local_maxima x) \<and> list_all (\<lambda>i. 0 < i \<and> i < length x) (local_maxima x)"
proof -
  have "sorted_wrt (<) (local_maxima x)"
    unfolding local_maxima_def by (intro sorted_wrt_filter) simp
  moreover have "list_all (\<lambda>i. 0 < i \<and> i < length x) (local_maxima x)"
    by (auto simp: local_maxima_def list_all_iff)
  ultimately show ?thesis ..
qed

lemma report_delays_simps:
  "simulated_ignition_delay (report_delays ds) = (if ds = [] then 0 else last ds)"
  "simulated_first_stage_delay (report_delays ds) = (if 1 < length ds then Some (ds ! 0) else None)"
  by (simp_all add: report_delays_def)

lemma qualifying_peaks_sorted:
  "sorted_wrt (<) ind \<Longrightarrow> sorted_wrt (<) (qualifying_peaks ts ind max_ind time_comp)"
  by (simp add: qualifying_peaks_def sorted_wrt_filter)

lemma strict_sorted_hd_last:
  assumes "sorted_wrt (<) (q :: nat list)" "1 < length q"
  shows "hd q < last q"
proof -
  have "q ! 0 < q ! (length q - 1)"
    using assms by (intro sorted_wrt_nth_less [OF assms(1)]) auto
  then show ?thesis using assms(2) by (cases q) (auto simp: last_conv_nth)
qed

lemma strict_sorted_le_last:
  assumes "sorted_wrt (<) (q :: nat list)" "i \<in> set q"
  shows "i \<le> last q"
proof -
  from assms(2) obtain j where j: "j < length q" "q ! j = i" by (auto simp: in_set_conv_nth)
  then have ne: "q \<noteq> []" by auto
  show ?thesis
  proof (cases "j = length q - 1")
    case True
    with j ne show ?thesis by (simp add: last_conv_nth)
  next
    case False
    then have "q ! j < q ! (length q - 1)"
      using sorted_wrt_nth_less [OF assms(1), of j "length q - 1"] j by simp
    with j ne show ?thesis by (simp add: last_conv_nth)
  qed
qed

text \<open>
  Claim C1. Under the criteria \<open>max\<close> and \<open>d/dt max\<close>, when the detector has found peaks (in
  ascending order, within the table), the delays the code computes are the adjusted times
  (time less the compression time, 0 when absent) of exactly the qualifying peaks: the
  detected peaks at or before the largest peak whose adjusted time exceeds zero. The reported
  overall delay is the adjusted time of the last qualifying peak, and 0 when no peak
  qualifies.
\<close>

theorem process_results_max_overall:
  assumes "type = ''max'' \<or> type = ''d/dt max''"
    and "target_col tgt table = Inr target0"
    and "find_peaks detect_peaks type (map time table) target0 = Inr (target, ind)"
    and "ind \<noteq> []"
    and "sorted_wrt (<) ind"
    and "list_all (\<lambda>i. i < length table) ind"
  shows "\<exists>max_ind r.
           largest_peak target ind = Inr max_ind \<and> max_ind \<in> set ind \<and>
           (\<forall>i\<in>set ind. target ! i \<le> target ! max_ind) \<and>
           ign_delays_max (map time table) ind max_ind (time_comp_of compression_time) =
             Inr (map (\<lambda>i. time (table ! i) - time_comp_of compression_time)
                    (qualifying_peaks (map time table) ind max_ind (time_comp_of compression_time))) \<and>
           process_results detect_peaks tgt type compression_time table = Inr r \<and>
           simulated_ignition_delay r =
             (if qualifying_peaks (map time table) ind max_ind (time_comp_of compression_time) = []
              then 0
              else time (table ! last (qualifying_peaks (map time table) ind max_ind
                                        (time_comp_of compression_time)))
                   - time_comp_of compression_time) \<and>
           (sorted_wrt (<) (map time table) \<longrightarrow>
              list_all (\<lambda>i. time (table ! i) - time_comp_of compression_time
                            \<le> simulated_ignition_delay r)
                (qualifying_peaks (map time table) ind max_ind (time_comp_of compression_time)))"
proof -
  let ?ts = "map time table"
  let ?tc = "time_comp_of compression_time"
  from max_branch_result [OF assms, of compression_time]
  obtain m where m: "largest_peak target ind = Inr m" "m \<in> set ind"
    "\<forall>i\<in>set ind. target ! i \<le> target ! m"
    "process_results detect_peaks tgt type compression_time table =
       Inr (report_delays (map (\<lambda>i. ?ts ! i - ?tc) (qualifying_peaks ?ts ind m ?tc)))"
    by blast
  let ?q = "qualifying_peaks ?ts ind m ?tc"
  have q_range: "\<forall>i\<in>set ?q. i < length table"
    using assms(6) by (auto simp: qualifying_peaks_def list_all_iff)
  have map_eq: "map (\<lambda>i. ?ts ! i - ?tc) ?q = map (\<lambda>i. time (table ! i) - ?tc) ?q"
    using q_range by (intro map_cong) simp_all
  have ign: "ign_delays_max ?ts ind m ?tc = Inr (map (\<lambda>i. time (table ! i) - ?tc) ?q)"
    using ign_delays_max_sorted [OF assms(5), of ?ts m ?tc] assms(6) map_eq by simp
  let ?r = "report_delays (map (\<lambda>i. ?ts ! i - ?tc) ?q)"
  have overall: "simulated_ignition_delay ?r =
          (if ?q = [] then 0 else time (table ! last ?q) - ?tc)"
    by (simp add: report_delays_simps map_eq last_map)
  have latest: "list_all (\<lambda>i. time (table ! i) - ?tc \<le> simulated_ignition_delay ?r) ?q"
    if ts: "sorted_wrt (<) ?ts"
  proof -
    have "time (table ! i) - ?tc \<le> simulated_ignition_delay ?r" if i: "i \<in> set ?q" for i
    proof -
      have ne: "?q \<noteq> []" using i by auto
      have "i \<le> last ?q"
        by (rule strict_sorted_le_last [OF qualifying_peaks_sorted [OF assms(5)] i])
      moreover have "last ?q < length ?ts" using ne q_range by simp
      ultimately have "?ts ! i \<le> ?ts ! last ?q" by (rule strict_sorted_nth_le [OF ts])
      moreover have "i < length table" using i q_range by blast
      moreover have "last ?q < length table" using ne q_range by simp
      ultimately show ?thesis using ne overall by simp
    qed
    then show ?thesis by (simp add: list_all_iff)
  qed
  from m ign overall latest show ?thesis by blast
qed

theorem process_results_max_overall_witness:
  "target_col Pressure (pressure_table [(0, 0), (1, 2), (2, 1), (3, 5), (4, 0)])
     = Inr [0, 2, 1, 5, 0] \<and>
   find_peaks local_maxima ''max'' (map time (pressure_table [(0, 0), (1, 2), (2, 1), (3, 5), (4, 0)]))
      [0, 2, 1, 5, 0] = Inr ([0, 2, 1, 5, 0], [1, 3]) \<and>
   sorted_wrt (<) [1, 3 :: nat] \<and>
   largest_peak [0, 2, 1, 5, 0] [1, 3] = Inr 3 \<and>
   qualifying_peaks [0, 1, 2, 3, 4] [1, 3] 3 1 = [3] \<and>
   (\<exists>r. process_results local_maxima Pressure ''max'' (Some 1)
           (pressure_table [(0, 0), (1, 2), (2, 1), (3, 5), (4, 0)]) = Inr r \<and>
        simulated_ignition_delay r = 2)"
proof -
  let ?table = "pressure_table [(0, 0), (1, 2), (2, 1), (3, 5), (4, 0)]"
  have ts: "map time ?table = [0, 1, 2, 3, 4]" by (simp add: pressure_table_def)
  have col: "target_col Pressure ?table = Inr [0, 2, 1, 5, 0]"
    by (simp add: target_col_def pressure_table_def)
  have peaks: "find_peaks local_maxima ''max'' (map time ?table) [0, 2, 1, 5, 0]
                 = Inr ([0, 2, 1, 5, 0], [1, 3])"
    unfolding ts by code_simp
  have lp: "largest_peak [0, 2, 1, 5, 0] [1, 3] = Inr 3" by code_simp
  have q: "qualifying_peaks [0, 1, 2, 3, 4] [1, 3] 3 1 = [3]" by code_simp
  have len: "list_all (\<lambda>i. i < length ?table) [1, 3 :: nat]" by (simp add: pressure_table_def)
  from process_results_max_overall [OF _ col peaks _ _ len, of "Some 1"]
  obtain r where r: "process_results local_maxima Pressure ''max'' (Some 1) ?table = Inr r"
    "simulated_ignition_delay r = 2"
    using lp q ts by (auto simp: time_comp_of_def pressure_table_def)
  with col peaks lp q show ?thesis by auto
qed

text \<open>
  With at least one detected peak and strictly increasing times: with more than one
  qualifying peak the first-stage delay is the adjusted time of the earliest qualifying peak
  and is strictly less than the overall delay; with at most one qualifying peak it is
  not-a-number.
\<close>

lemma first_stage_with_peaks:
  assumes "type = ''max'' \<or> type = ''d/dt max''"
    and "target_col tgt table = Inr target0"
    and "find_peaks detect_peaks type (map time table) target0 = Inr (target, ind)"
    and "ind \<noteq> []"
    and "sorted_wrt (<) ind"
    and "list_all (\<lambda>i. i < length table) ind"
    and "sorted_wrt (<) (map time table)"
  shows "\<exists>max_ind r.
           largest_peak target ind = Inr max_ind \<and>
           process_results detect_peaks tgt type compression_time table = Inr r \<and>
           (if 1 < length (qualifying_peaks (map time table) ind max_ind
                             (time_comp_of compression_time))
            then simulated_first_stage_delay r =
                   Some (time (table ! hd (qualifying_peaks (map time table) ind max_ind
                                              (time_comp_of compression_time)))
                         - time_comp_of compression_time) \<and>
                 time (table ! hd (qualifying_peaks (map time table) ind max_ind
                                     (time_comp_of compression_time)))
                   - time_comp_of compression_time < simulated_ignition_delay r
            else simulated_first_stage_delay r = None)"
proof -
  let ?ts = "map time table"
  let ?tc = "time_comp_of compression_time"
  from max_branch_result [OF assms(1-6), of compression_time]
  obtain m where m: "largest_peak target ind = Inr m"
    "process_results detect_peaks tgt type compression_time table =
       Inr (report_delays (map (\<lambda>i. ?ts ! i - ?tc) (qualifying_peaks ?ts ind m ?tc)))"
    by blast
  let ?q = "qualifying_peaks ?ts ind m ?tc"
  let ?r = "report_delays (map (\<lambda>i. ?ts ! i - ?tc) ?q)"
  have q_range: "\<forall>i\<in>set ?q. i < length table"
    using assms(6) by (auto simp: qualifying_peaks_def list_all_iff)
  have q_sorted: "sorted_wrt (<) ?q" by (rule qualifying_peaks_sorted [OF assms(5)])
  have "simulated_first_stage_delay ?r = Some (time (table ! hd ?q) - ?tc) \<and>
        time (table ! hd ?q) - ?tc < simulated_ignition_delay ?r"
    if long: "1 < length ?q"
  proof -
    have ne: "?q \<noteq> []" using long by auto
    then have hd_in: "hd ?q \<in> set ?q" and last_in: "last ?q \<in> set ?q" by simp_all
    with q_range have hd_lt: "hd ?q < length table" and last_lt: "last ?q < length table"
      by blast+
    have "hd ?q < last ?q" by (rule strict_sorted_hd_last [OF q_sorted long])
    then have "?ts ! hd ?q < ?ts ! last ?q"
      using sorted_wrt_nth_less [OF assms(7), of "hd ?q" "last ?q"] last_lt by simp
    then have lt: "time (table ! hd ?q) < time (table ! last ?q)"
      using hd_lt last_lt by simp
    have first: "simulated_first_stage_delay ?r = Some (time (table ! hd ?q) - ?tc)"
      using long ne hd_lt by (simp add: report_delays_simps hd_conv_nth)
    have "simulated_ignition_delay ?r = time (table ! last ?q) - ?tc"
      using ne last_lt by (simp add: report_delays_simps last_map)
    with first lt show ?thesis by simp
  qed
  moreover have "simulated_first_stage_delay ?r = None" if "\<not> 1 < length ?q"
    using that by (simp add: report_delays_simps)
  ultimately show ?thesis using m by auto
qed

text \<open>
  Claim C7. The claim promises a first-stage delay of not-a-number whenever at most one
  qualifying peak exists. When the detector finds no peak at all there is no qualifying
  peak, and the code raises \<open>ValueError\<close> at \<open>numpy.argmax\<close> instead of reporting anything. With
  at least one detected peak the code does what the claim says.
\<close>

theorem process_results_first_stage:
  assumes "type = ''max'' \<or> type = ''d/dt max''"
    and "target_col tgt table = Inr target0"
    and "find_peaks detect_peaks type (map time table) target0 = Inr (target, ind)"
    and "sorted_wrt (<) ind"
    and "list_all (\<lambda>i. i < length table) ind"
    and "sorted_wrt (<) (map time table)"
  shows "(ind = [] \<longrightarrow>
            process_results detect_peaks tgt type compression_time table = Inl ValueError) \<and>
         (ind \<noteq> [] \<longrightarrow>
            (\<exists>max_ind r.
               largest_peak target ind = Inr max_ind \<and>
               process_results detect_peaks tgt type compression_time table = Inr r \<and>
               (if 1 < length (qualifying_peaks (map time table) ind max_ind
                                 (time_comp_of compression_time))
                then simulated_first_stage_delay r =
                       Some (time (table ! hd (qualifying_peaks (map time table) ind max_ind
                                                  (time_comp_of compression_time)))
                             - time_comp_of compression_time) \<and>
                     time (table ! hd (qualifying_peaks (map time table) ind max_ind
                                         (time_comp_of compression_time)))
                       - time_comp_of compression_time < simulated_ignition_delay r
                else simulated_first_stage_delay r = None)))"
proof (intro conjI impI)
  assume "ind = []"
  then show "process_results detect_peaks tgt type compression_time table = Inl ValueError"
    using assms(3) by (simp add: max_branch_unfold [OF assms(1,2)] largest_peak_empty)
next
  assume "ind \<noteq> []"
  then show "\<exists>max_ind r.
               largest_peak target ind = Inr max_ind \<and>
               process_results detect_peaks tgt type compression_time table = Inr r \<and>
               (if 1 < length (qualifying_peaks (map time table) ind max_ind
                                 (time_comp_of compression_time))
                then simulated_first_stage_delay r =
                       Some (time (table ! hd (qualifying_peaks (map time table) ind max_ind
                                                  (time_comp_of compression_time)))
                             - time_comp_of compression_time) \<and>
                     time (table ! hd (qualifying_peaks (map time table) ind max_ind
                                         (time_comp_of compression_time)))
                       - time_comp_of compression_time < simulated_ignition_delay r
                else simulated_first_stage_delay r = None)"
    using assms by (intro first_stage_with_peaks)
qed

theorem process_results_first_stage_witness:
  "target_col Pressure (pressure_table [(0, 0), (1, 1), (2, 2)]) = Inr [0, 1, 2] \<and>
   find_peaks local_maxima ''d/dt max'' (map time (pressure_table [(0, 0), (1, 1), (2, 2)]))
      [0, 1, 2] = Inr ([1, 1, 1], []) \<and>
   process_results local_maxima Pressure ''d/dt max'' None
      (pressure_table [(0, 0), (1, 1), (2, 2)]) = Inl ValueError \<and>
   target_col Pressure (pressure_table [(0, 0), (1, 2), (2, 1), (3, 5), (4, 0)])
     = Inr [0, 2, 1, 5, 0] \<and>
   find_peaks local_maxima ''max'' (map time (pressure_table [(0, 0), (1, 2), (2, 1), (3, 5), (4, 0)]))
      [0, 2, 1, 5, 0] = Inr ([0, 2, 1, 5, 0], [1, 3]) \<and>
   sorted_wrt (<) [1, 3 :: nat] \<and>
   sorted_wrt (<) (map time (pressure_table [(0, 0), (1, 2), (2, 1), (3, 5), (4, 0)])) \<and>
   (\<exists>r. process_results local_maxima Pressure ''max'' (Some (1 / 2))
           (pressure_table [(0, 0), (1, 2), (2, 1), (3, 5), (4, 0)]) = Inr r \<and>
        simulated_first_stage_delay r = Some (1 / 2) \<and> 1 / 2 < simulated_ignition_delay r)"
proof -
  let ?flat = "pressure_table [(0, 0), (1, 1), (2, 2)]"
  have ts0: "map time ?flat = [0, 1, 2]" by (simp add: pressure_table_def)
  have col0: "target_col Pressure ?flat = Inr [0, 1, 2]"
    by (simp add: target_col_def pressure_table_def)
  have peaks0: "find_peaks local_maxima ''d/dt max'' (map time ?flat) [0, 1, 2]
                  = Inr ([1, 1, 1], [])"
    unfolding ts0 by code_simp
  have len0: "list_all (\<lambda>i. i < length ?flat) ([] :: nat list)" by simp
  have sorted0: "sorted_wrt (<) (map time ?flat)" unfolding ts0 by simp
  have raises: "process_results local_maxima Pressure ''d/dt max'' None ?flat = Inl ValueError"
    using process_results_first_stage [OF _ col0 peaks0 _ len0 sorted0, of None] by simp
  let ?table = "pressure_table [(0, 0), (1, 2), (2, 1), (3, 5), (4, 0)]"
  have ts: "map time ?table = [0, 1, 2, 3, 4]" by (simp add: pressure_table_def)
  have col: "target_col Pressure ?table = Inr [0, 2, 1, 5, 0]"
    by (simp add: target_col_def pressure_table_def)
  have peaks: "find_peaks local_maxima ''max'' (map time ?table) [0, 2, 1, 5, 0]
                 = Inr ([0, 2, 1, 5, 0], [1, 3])"
    unfolding ts by code_simp
  have lp: "largest_peak [0, 2, 1, 5, 0] [1, 3] = Inr 3" by code_simp
  have q: "qualifying_peaks [0, 1, 2, 3, 4] [1, 3] 3 (1 / 2) = [1, 3]" by code_simp
  have len: "list_all (\<lambda>i. i < length ?table) [1, 3 :: nat]" by (simp add: pressure_table_def)
  have sorted: "sorted_wrt (<) (map time ?table)" unfolding ts by simp
  from process_results_first_stage [OF _ col peaks _ len sorted, of "Some (1 / 2)"]
  obtain r where r: "process_results local_maxima Pressure ''max'' (Some (1 / 2)) ?table = Inr r"
    "simulated_first_stage_delay r = Some (1 / 2)" "1 / 2 < simulated_ignition_delay r"
    using lp q ts by (auto simp: time_comp_of_def pressure_table_def)
  with col0 peaks0 raises col peaks sorted show ?thesis by auto
qed

text \<open>
  Claim C2. The claim promises an overall delay of 0 and no error when no peak is found even
  after the second try on the derivative. The code reaches \<open>numpy.argmax\<close> with an empty
  array and raises \<open>ValueError\<close>; the branch that reports 0 is reached only when peaks were
  found and none qualifies.
\<close>

theorem process_results_no_peaks_raises:
  assumes "type = ''max'' \<or> type = ''d/dt max''"
    and "target_col tgt table = Inr target0"
    and "find_peaks detect_peaks type (map time table) target0 = Inr (target, [])"
  shows "process_results detect_peaks tgt type compression_time table = Inl ValueError"
  by (simp add: max_branch_unfold [OF assms] largest_peak_empty)

theorem process_results_no_peaks_raises_witness:
  "target_col Pressure (pressure_table [(0, 1), (1, 1), (2, 1)]) = Inr [1, 1, 1] \<and>
   find_peaks local_maxima ''max'' (map time (pressure_table [(0, 1), (1, 1), (2, 1)])) [1, 1, 1]
     = Inr ([0, 0, 0], []) \<and>
   process_results local_maxima Pressure ''max'' None (pressure_table [(0, 1), (1, 1), (2, 1)])
     = Inl ValueError"
proof -
  let ?table = "pressure_table [(0, 1), (1, 1), (2, 1)]"
  have ts: "map time ?table = [0, 1, 2]" by (simp add: pressure_table_def)
  have col: "target_col Pressure ?table = Inr [1, 1, 1]"
    by (simp add: target_col_def pressure_table_def)
  have peaks: "find_peaks local_maxima ''max'' (map time ?table) [1, 1, 1] = Inr ([0, 0, 0], [])"
    unfolding ts by code_simp
  from process_results_no_peaks_raises [OF _ col peaks, of None] col peaks
  show ?thesis by simp
qed




end
